theory Spec2Isabelle
  imports Main
begin

section \<open>The document model\<close>

text \<open>
  The program (\<^verbatim>\<open>20250304.py\<close>) reads a spreadsheet, downloads the target of every
  hyperlinked cell, and embeds thumbnails to the right of the hyperlinks.

  Rows, columns and page numbers are the positive integers of the spreadsheet library
  (1-based), modelled as \<open>nat\<close>. A worksheet has an extent \<open>max_row\<close> \<times> \<open>max_column\<close>
  (the library's \<^verbatim>\<open>ws.max_row\<close> and \<^verbatim>\<open>ws.max_column\<close>, which are computed from the
  cells of the sheet and are not changed by \<^verbatim>\<open>ws.add_image\<close>), the hyperlink target
  of each cell, the list of embedded images, and the column and row dimensions.
\<close>

record image =
  ref :: string
  width :: nat
  height :: nat
  anchor :: string

record worksheet =
  max_row :: nat
  max_column :: nat
  hyperlink :: "nat \<times> nat \<Rightarrow> string option"
  images :: "image list"
  column_width :: "string \<Rightarrow> nat option"
  row_height :: "nat \<Rightarrow> nat option"

text \<open>
  A link descriptor is the dictionary \<^verbatim>\<open>{"cell": c, "url": c.hyperlink.target, "col": c.column}\<close>
  built by \<^verbatim>\<open>_group_hyperlinks\<close>; the cell object is represented by its (row, column).
\<close>

record link =
  cell :: "nat \<times> nat"
  url :: string
  col :: nat

subsection \<open>Iterating over the cells\<close>

text \<open>
  \<^verbatim>\<open>ws[row]\<close> and each row produced by \<^verbatim>\<open>ws.iter_rows()\<close> is the tuple of the cells
  of that row in columns \<open>1 .. max_column\<close>; \<^verbatim>\<open>ws.iter_rows()\<close> runs over rows
  \<open>1 .. max_row\<close>.
\<close>

definition row_cells :: "worksheet \<Rightarrow> nat \<Rightarrow> (nat \<times> nat) list" where
  "row_cells ws r = map (\<lambda>c. (r, c)) [1..<Suc (max_column ws)]"

definition iter_rows :: "worksheet \<Rightarrow> (nat \<times> nat) list list" where
  "iter_rows ws = map (row_cells ws) [1..<Suc (max_row ws)]"

subsection \<open>Link Extractor: \<^verbatim>\<open>_group_hyperlinks\<close>\<close>

text \<open>
  The dictionary \<^verbatim>\<open>row_hyperlinks\<close> keeps insertion order (the orchestrator iterates
  over \<^verbatim>\<open>.items()\<close>), so it is an association list. \<open>ensure_row\<close> is
  \<^verbatim>\<open>if row not in row_hyperlinks: row_hyperlinks[row] = []\<close>, and \<open>append_link\<close> is
  \<^verbatim>\<open>row_hyperlinks[row].append(...)\<close>.
\<close>

type_synonym row_hyperlinks = "(nat \<times> link list) list"

definition ensure_row :: "row_hyperlinks \<Rightarrow> nat \<Rightarrow> row_hyperlinks" where
  "ensure_row d r = (if r \<in> fst ` set d then d else d @ [(r, [])])"

definition append_link :: "row_hyperlinks \<Rightarrow> nat \<Rightarrow> link \<Rightarrow> row_hyperlinks" where
  "append_link d r l = map (\<lambda>(k, ls). if k = r then (k, ls @ [l]) else (k, ls)) d"

definition group_cell :: "worksheet \<Rightarrow> row_hyperlinks \<Rightarrow> nat \<times> nat \<Rightarrow> row_hyperlinks" where
  "group_cell ws d c =
     (case hyperlink ws c of
        None \<Rightarrow> d
      | Some u \<Rightarrow> append_link (ensure_row d (fst c)) (fst c) \<lparr>cell = c, url = u, col = snd c\<rparr>)"

definition group_hyperlinks :: "worksheet \<Rightarrow> row_hyperlinks" where
  "group_hyperlinks ws = foldl (\<lambda>d cells. foldl (group_cell ws) d cells) [] (iter_rows ws)"

subsection \<open>Column Allocator: \<^verbatim>\<open>_find_insert_start_col\<close>\<close>

definition find_insert_start_col :: "worksheet \<Rightarrow> nat \<Rightarrow> nat \<Rightarrow> nat" where
  "find_insert_start_col ws row link_count =
     (let max_hyperlink_col =
            (if link_count > 0
             then foldl (\<lambda>m c. case hyperlink ws c of None \<Rightarrow> m | Some u \<Rightarrow> max m (snd c))
                    0 (row_cells ws row)
             else 0)
      in max_hyperlink_col + 1)"

subsection \<open>Dispatch: the submissions of \<^verbatim>\<open>process_excel_hyperlinks\<close>\<close>

text \<open>
  For each entry of the dictionary the links are sorted by column (\<^verbatim>\<open>list.sort\<close> is
  stable, as \<open>sort_key\<close> is), the start column is computed, and link number \<open>idx\<close> is
  submitted with the arguments \<open>(link, row, start_col + idx)\<close>. All submissions are
  computed from the worksheet's hyperlinks alone, which no worker changes.
\<close>

type_synonym task = "link \<times> nat \<times> nat"

definition row_submissions :: "worksheet \<Rightarrow> nat \<times> link list \<Rightarrow> task list" where
  "row_submissions ws item =
     (let row = fst item;
          links = sort_key col (snd item);
          start_col = find_insert_start_col ws row (length links)
      in map (\<lambda>(idx, l). (l, row, start_col + idx)) (enumerate 0 links))"

definition submissions :: "worksheet \<Rightarrow> task list" where
  "submissions ws = concat (map (row_submissions ws) (group_hyperlinks ws))"

subsection \<open>Notions used to state the allocation claims\<close>

text \<open>The columns of the hyperlinked cells of a row, and the links of a row in column order.\<close>

definition holds_hyperlink :: "worksheet \<Rightarrow> nat \<Rightarrow> nat \<Rightarrow> bool" where
  "holds_hyperlink ws row c = (1 \<le> c \<and> c \<le> max_column ws \<and> hyperlink ws (row, c) \<noteq> None)"

definition hyperlink_columns :: "worksheet \<Rightarrow> nat \<Rightarrow> nat set" where
  "hyperlink_columns ws row = {c. holds_hyperlink ws row c}"

definition link_at :: "worksheet \<Rightarrow> nat \<times> nat \<Rightarrow> link option" where
  "link_at ws c = map_option (\<lambda>u. \<lparr>cell = c, url = u, col = snd c\<rparr>) (hyperlink ws c)"

definition row_links :: "worksheet \<Rightarrow> nat \<Rightarrow> link list" where
  "row_links ws r = List.map_filter (link_at ws) (row_cells ws r)"

text \<open>
  The specification's wording of the allocator's contract: a block of \<open>n\<close> columns
  starting at \<open>s\<close> is free when none of its columns holds a hyperlink in the row, and
  \<open>s\<close> is the first such start when no earlier column starts a free block.
\<close>

definition block_free :: "worksheet \<Rightarrow> nat \<Rightarrow> nat \<Rightarrow> nat \<Rightarrow> bool" where
  "block_free ws row s n = (\<forall>c \<in> set [s..<s + n]. \<not> holds_hyperlink ws row c)"

definition first_free_block :: "worksheet \<Rightarrow> nat \<Rightarrow> nat \<Rightarrow> nat \<Rightarrow> bool" where
  "first_free_block ws row n s =
     (block_free ws row s n \<and> (\<forall>s' \<in> set [1..<s]. \<not> block_free ws row s' n))"

section \<open>The extractor and the allocator\<close>

lemma append_link_snoc:
  "r \<notin> fst ` set d \<Longrightarrow> append_link (d @ [(r, ls)]) r l = d @ [(r, ls @ [l])]"
  by (induction d) (auto simp: append_link_def)

lemma link_at_None: "hyperlink ws c = None \<Longrightarrow> link_at ws c = None"
  by (simp add: link_at_def)

lemma link_at_Some:
  "hyperlink ws c = Some u \<Longrightarrow> link_at ws c = Some \<lparr>cell = c, url = u, col = snd c\<rparr>"
  by (simp add: link_at_def)

lemma group_cell_other:
  "hyperlink ws c = None \<Longrightarrow> group_cell ws d c = d"
  by (simp add: group_cell_def)

lemma foldl_group_cell_open:
  "r \<notin> fst ` set d \<Longrightarrow>
   foldl (group_cell ws) (d @ [(r, ls)]) (map (\<lambda>c. (r, c)) cs)
     = d @ [(r, ls @ List.map_filter (link_at ws) (map (\<lambda>c. (r, c)) cs))]"
proof (induction cs arbitrary: ls)
  case Nil
  then show ?case by (simp add: map_filter_simps)
next
  case (Cons c cs)
  show ?case
  proof (cases "hyperlink ws (r, c)")
    case None
    then show ?thesis using Cons
      by (simp add: group_cell_def map_filter_simps link_at_None)
  next
    case (Some u)
    have "group_cell ws (d @ [(r, ls)]) (r, c) = d @ [(r, ls @ [\<lparr>cell = (r, c), url = u, col = c\<rparr>])]"
      using Cons.prems Some by (simp add: group_cell_def ensure_row_def append_link_snoc)
    then show ?thesis using Cons Some
      by (simp add: map_filter_simps link_at_Some)
  qed
qed

lemma foldl_group_cell_row:
  "r \<notin> fst ` set d \<Longrightarrow>
   foldl (group_cell ws) d (map (\<lambda>c. (r, c)) cs)
     = (let ls = List.map_filter (link_at ws) (map (\<lambda>c. (r, c)) cs)
        in if ls = [] then d else d @ [(r, ls)])"
proof (induction cs)
  case Nil
  then show ?case by (simp add: map_filter_simps)
next
  case (Cons c cs)
  show ?case
  proof (cases "hyperlink ws (r, c)")
    case None
    then show ?thesis using Cons
      by (simp add: group_cell_def map_filter_simps link_at_None)
  next
    case (Some u)
    have "group_cell ws d (r, c) = d @ [(r, [\<lparr>cell = (r, c), url = u, col = c\<rparr>])]"
      using Cons.prems Some
      by (simp add: group_cell_def ensure_row_def append_link_def)
         (induction d, auto)
    then show ?thesis using Cons.prems Some
      by (simp add: map_filter_simps link_at_Some foldl_group_cell_open Let_def)
  qed
qed

definition grouped :: "worksheet \<Rightarrow> nat list \<Rightarrow> row_hyperlinks" where
  "grouped ws rs = filter (\<lambda>item. snd item \<noteq> []) (map (\<lambda>r. (r, row_links ws r)) rs)"

lemma foldl_rows:
  "distinct rs \<Longrightarrow> set rs \<inter> fst ` set d = {} \<Longrightarrow>
   foldl (\<lambda>d cells. foldl (group_cell ws) d cells) d (map (row_cells ws) rs)
     = d @ grouped ws rs"
proof (induction rs arbitrary: d)
  case Nil
  then show ?case by (simp add: grouped_def)
next
  case (Cons r rs)
  have r: "r \<notin> fst ` set d" using Cons.prems by auto
  have step: "foldl (group_cell ws) d (row_cells ws r)
      = (if row_links ws r = [] then d else d @ [(r, row_links ws r)])"
    using foldl_group_cell_row [OF r, of ws "[1..<Suc (max_column ws)]"]
    by (simp add: row_cells_def row_links_def Let_def)
  show ?case
  proof (cases "row_links ws r = []")
    case True
    then show ?thesis using Cons step by (simp add: grouped_def)
  next
    case False
    have "set rs \<inter> fst ` set (d @ [(r, row_links ws r)]) = {}"
      using Cons.prems by auto
    then show ?thesis using Cons False step by (simp add: grouped_def)
  qed
qed

lemma group_hyperlinks_eq:
  "group_hyperlinks ws = grouped ws [1..<Suc (max_row ws)]"
  using foldl_rows [of "[1..<Suc (max_row ws)]" "[]" ws]
  by (simp add: group_hyperlinks_def iter_rows_def)

lemma map_col_map_filter:
  "map col (List.map_filter (link_at ws) (map (\<lambda>c. (r, c)) cs))
     = filter (\<lambda>c. hyperlink ws (r, c) \<noteq> None) cs"
  by (induction cs) (auto simp: map_filter_simps link_at_def split: option.splits)

lemma map_col_row_links:
  "map col (row_links ws r)
     = filter (\<lambda>c. hyperlink ws (r, c) \<noteq> None) [1..<Suc (max_column ws)]"
  by (simp add: row_links_def row_cells_def map_col_map_filter)

lemma set_col_row_links: "col ` set (row_links ws r) = hyperlink_columns ws r"
proof -
  have "col ` set (row_links ws r) = set (map col (row_links ws r))" by simp
  also have "\<dots> = hyperlink_columns ws r"
    unfolding map_col_row_links hyperlink_columns_def holds_hyperlink_def by auto
  finally show ?thesis .
qed

lemma sorted_col_row_links: "sorted_wrt (<) (map col (row_links ws r))"
  unfolding map_col_row_links
  by (rule sorted_wrt_filter) (simp add: sorted_wrt_upt del: upt_Suc)

lemma length_row_links: "length (row_links ws r) = card (hyperlink_columns ws r)"
proof -
  have d: "distinct (map col (row_links ws r))"
    using sorted_col_row_links [of ws r] strict_sorted_iff by blast
  have "card (hyperlink_columns ws r) = card (set (map col (row_links ws r)))"
    using set_col_row_links [of ws r] by simp
  also have "\<dots> = length (map col (row_links ws r))"
    using d by (rule distinct_card)
  finally show ?thesis by simp
qed

lemma sort_key_row_links: "sort_key col (row_links ws r) = row_links ws r"
proof -
  have "sorted (map col (row_links ws r))"
    using sorted_col_row_links [of ws r] strict_sorted_iff by blast
  then show ?thesis by (rule sort_key_id_if_sorted)
qed

lemma finite_hyperlink_columns: "finite (hyperlink_columns ws r)"
proof -
  have "hyperlink_columns ws r \<subseteq> {..max_column ws}"
    by (auto simp: hyperlink_columns_def holds_hyperlink_def)
  then show ?thesis by (rule finite_subset) simp
qed

lemma foldl_max_col:
  "foldl (\<lambda>m c. case hyperlink ws c of None \<Rightarrow> m | Some u \<Rightarrow> max m (snd c)) m0
       (map (\<lambda>c. (r, c)) cs)
     = Max (insert m0 {c \<in> set cs. hyperlink ws (r, c) \<noteq> None})"
proof (induction cs arbitrary: m0)
  case Nil
  then show ?case by simp
next
  case (Cons c cs)
  let ?H = "{c \<in> set cs. hyperlink ws (r, c) \<noteq> None}"
  have fin: "finite ?H" by simp
  show ?case
  proof (cases "hyperlink ws (r, c)")
    case None
    then have "{x \<in> set (c # cs). hyperlink ws (r, x) \<noteq> None} = ?H" by auto
    then show ?thesis using Cons None by simp
  next
    case (Some u)
    then have eq: "{x \<in> set (c # cs). hyperlink ws (r, x) \<noteq> None} = insert c ?H" by auto
    have "Max (insert (max m0 c) ?H) = Max (insert m0 (insert c ?H))"
    proof (cases "?H = {}")
      case True
      have "Max (insert m0 {c}) = max m0 c" by simp
      then show ?thesis unfolding True by simp
    next
      case False
      have "Max (insert (max m0 c) ?H) = max (max m0 c) (Max ?H)"
        using fin False by (rule Max_insert)
      moreover have "Max (insert c ?H) = max c (Max ?H)"
        using fin False by (rule Max_insert)
      moreover have "Max (insert m0 (insert c ?H)) = max m0 (Max (insert c ?H))"
        using fin by (intro Max_insert) simp_all
      ultimately show ?thesis by (simp only: max.assoc)
    qed
    moreover have "foldl (\<lambda>m c. case hyperlink ws c of None \<Rightarrow> m | Some u \<Rightarrow> max m (snd c)) m0
       (map (\<lambda>c. (r, c)) (c # cs)) = Max (insert (max m0 c) ?H)"
      using Cons [of "max m0 c"] Some by simp
    ultimately show ?thesis unfolding eq by simp
  qed
qed

lemma find_insert_start_col_eq:
  assumes "0 < n" and "hyperlink_columns ws row \<noteq> {}"
  shows "find_insert_start_col ws row n = Max (hyperlink_columns ws row) + 1"
proof -
  let ?H = "{c \<in> set [1..<Suc (max_column ws)]. hyperlink ws (row, c) \<noteq> None}"
  have H: "?H = hyperlink_columns ws row"
    by (auto simp: hyperlink_columns_def holds_hyperlink_def)
  have "Max (insert 0 (hyperlink_columns ws row)) = Max (hyperlink_columns ws row)"
    using assms(2) finite_hyperlink_columns [of ws row] by simp
  then show ?thesis
    using assms(1) foldl_max_col [of ws 0 row "[1..<Suc (max_column ws)]"]
    unfolding H by (simp add: find_insert_start_col_def row_cells_def)
qed

lemma in_group_hyperlinks:
  "(row, links) \<in> set (group_hyperlinks ws) \<longleftrightarrow>
     1 \<le> row \<and> row \<le> max_row ws \<and> links = row_links ws row \<and> links \<noteq> []"
  by (auto simp: group_hyperlinks_eq grouped_def)

lemma row_submissions_eq:
  "row_submissions ws (row, links) =
     map (\<lambda>i. (sort_key col links ! i, row,
                find_insert_start_col ws row (length links) + i)) [0..<length links]"
proof -
  have "map (\<lambda>(idx, l). (l, row, k + idx)) (enumerate 0 xs)
          = map (\<lambda>i. (xs ! i, row, k + i)) [0..<length xs]" for xs :: "link list" and k
    by (rule nth_equalityI) (simp_all add: nth_enumerate_eq)
  from this [of "find_insert_start_col ws row (length links)" "sort_key col links"]
  show ?thesis by (simp add: row_submissions_def Let_def)
qed

text \<open>
  Claim C1, as the code has it. For every entry \<open>(row, links)\<close> of the extractor's
  dictionary (a row with \<open>n = length links \<ge> 1\<close> hyperlinks), the allocator returns the
  greatest hyperlinked column of the row plus one. No hyperlink lies at or to the right
  of that column, so the block of \<open>n\<close> columns starting there is free, and it is the
  least column with no hyperlink at or to the right of it. The links are in ascending
  column order and link \<open>i\<close> is submitted with column \<open>start + i\<close>.
\<close>

theorem allocator_start_column:
  assumes "(row, links) \<in> set (group_hyperlinks ws)"
  shows "(let s = find_insert_start_col ws row (length links) in
           1 \<le> length links
         \<and> length links = card (hyperlink_columns ws row)
         \<and> s = Max (hyperlink_columns ws row) + 1
         \<and> (\<forall>c. s \<le> c \<longrightarrow> \<not> holds_hyperlink ws row c)
         \<and> block_free ws row s (length links)
         \<and> (\<forall>s'. 1 \<le> s' \<and> s' < s \<longrightarrow> (\<exists>c. s' \<le> c \<and> holds_hyperlink ws row c))
         \<and> sorted_wrt (<) (map col links)
         \<and> row_submissions ws (row, links)
             = map (\<lambda>i. (links ! i, row, s + i)) [0..<length links])"
proof -
  define s where "s = find_insert_start_col ws row (length links)"
  have links: "links = row_links ws row" and ne: "links \<noteq> []"
    using assms(1) by (auto simp: in_group_hyperlinks)
  have n: "1 \<le> length links" using ne by (cases links) simp_all
  have card: "length links = card (hyperlink_columns ws row)"
    by (simp add: links length_row_links)
  have H: "hyperlink_columns ws row \<noteq> {}"
    using n card by auto
  have fin: "finite (hyperlink_columns ws row)" by (rule finite_hyperlink_columns)
  have s: "s = Max (hyperlink_columns ws row) + 1"
    unfolding s_def using ne H by (intro find_insert_start_col_eq) simp_all
  have free: "\<forall>c. s \<le> c \<longrightarrow> \<not> holds_hyperlink ws row c"
  proof (intro allI impI notI)
    fix c assume "s \<le> c" "holds_hyperlink ws row c"
    then have "c \<le> Max (hyperlink_columns ws row)"
      using fin by (simp add: hyperlink_columns_def)
    with \<open>s \<le> c\<close> s show False by simp
  qed
  have block: "block_free ws row s (length links)"
    unfolding block_free_def using free by simp
  have least: "\<forall>s'. 1 \<le> s' \<and> s' < s \<longrightarrow> (\<exists>c. s' \<le> c \<and> holds_hyperlink ws row c)"
  proof (intro allI impI)
    fix s' assume "1 \<le> s' \<and> s' < s"
    then have "s' \<le> Max (hyperlink_columns ws row)" using s by simp
    moreover have "Max (hyperlink_columns ws row) \<in> hyperlink_columns ws row"
      using fin H by (rule Max_in)
    ultimately show "\<exists>c. s' \<le> c \<and> holds_hyperlink ws row c"
      unfolding hyperlink_columns_def by blast
  qed
  have sorted: "sorted_wrt (<) (map col links)"
    by (simp add: links sorted_col_row_links)
  have subs: "row_submissions ws (row, links) = map (\<lambda>i. (links ! i, row, s + i)) [0..<length links]"
    by (simp add: row_submissions_eq s_def links sort_key_row_links)
  show ?thesis
    unfolding Let_def s_def [symmetric]
    using n card s free block least sorted subs by blast
qed

subsection \<open>Two concrete worksheets\<close>

text \<open>
  \<open>ex_sheet\<close> is the document of the specification's end-to-end example: row 1 has one
  \<^verbatim>\<open>png\<close> hyperlink, row 2 a \<^verbatim>\<open>pdf\<close> and a \<^verbatim>\<open>jpg\<close> hyperlink. \<open>gap_sheet\<close> has a
  single hyperlink, in column 2 of row 1, so that column 1 is free.
\<close>

definition ex_sheet :: worksheet where
  "ex_sheet = \<lparr>max_row = 2, max_column = 2,
     hyperlink = map_of [((1, 1), ''http://h/a.png''), ((2, 1), ''http://h/b.pdf''),
                         ((2, 2), ''http://h/c.jpg'')],
     images = [], column_width = (\<lambda>k. None), row_height = (\<lambda>k. None)\<rparr>"

definition gap_sheet :: worksheet where
  "gap_sheet = \<lparr>max_row = 1, max_column = 2,
     hyperlink = map_of [((1, 2), ''http://h/a.png'')],
     images = [], column_width = (\<lambda>k. None), row_height = (\<lambda>k. None)\<rparr>"

theorem allocator_start_column_witness:
  "(2, [\<lparr>cell = (2, 1), url = ''http://h/b.pdf'', col = 1\<rparr>,
        \<lparr>cell = (2, 2), url = ''http://h/c.jpg'', col = 2\<rparr>]) \<in> set (group_hyperlinks ex_sheet)
   \<and> find_insert_start_col ex_sheet 2 2 = 3
   \<and> Max (hyperlink_columns ex_sheet 2) + 1 = 3
   \<and> card (hyperlink_columns ex_sheet 2) = 2
   \<and> block_free ex_sheet 2 3 2
   \<and> row_submissions ex_sheet (2, [\<lparr>cell = (2, 1), url = ''http://h/b.pdf'', col = 1\<rparr>,
        \<lparr>cell = (2, 2), url = ''http://h/c.jpg'', col = 2\<rparr>])
      = [(\<lparr>cell = (2, 1), url = ''http://h/b.pdf'', col = 1\<rparr>, 2, 3),
         (\<lparr>cell = (2, 2), url = ''http://h/c.jpg'', col = 2\<rparr>, 2, 4)]"
proof -
  let ?ls = "[\<lparr>cell = (2, 1), url = ''http://h/b.pdf'', col = 1\<rparr>,
        \<lparr>cell = (2, 2), url = ''http://h/c.jpg'', col = 2\<rparr>]"
  have h: "(2, ?ls) \<in> set (group_hyperlinks ex_sheet)" by code_simp
  have s: "find_insert_start_col ex_sheet 2 (length ?ls) = 3" by code_simp
  have l: "length ?ls = 2" by simp
  note c = allocator_start_column [OF h, unfolded Let_def s, unfolded l]
  have u: "[0..<2] = [0, Suc 0]" by (simp add: upt_rec)
  have s2: "find_insert_start_col ex_sheet 2 2 = 3" by code_simp
  show ?thesis using h c s2 by (simp add: u)
qed

text \<open>
  Claim C1 as the specification words it fails: in \<open>gap_sheet\<close> the row has one
  hyperlink, in column 2; the allocator answers 3, yet the one-column block starting at
  column 1 holds no hyperlink, so 3 is not the first column that starts a free block.
\<close>

theorem allocator_not_first_free_block:
  "(1, [\<lparr>cell = (1, 2), url = ''http://h/a.png'', col = 2\<rparr>]) \<in> set (group_hyperlinks gap_sheet)
   \<and> find_insert_start_col gap_sheet 1 1 = 3
   \<and> block_free gap_sheet 1 1 1
   \<and> \<not> first_free_block gap_sheet 1 1 (find_insert_start_col gap_sheet 1 1)"
  by code_simp

section \<open>Strings, URLs and file extensions\<close>

text \<open>
  Strings are lists of characters; URLs are taken to be ASCII, as RFC 3986 has them.
  The library functions used by \<^verbatim>\<open>_get_file_extension\<close> are modelled after CPython 3.12:
  \<^verbatim>\<open>str.lower\<close>, \<^verbatim>\<open>str.rfind\<close> (\<open>-1\<close> when the character does not occur),
  \<^verbatim>\<open>urllib.parse.urlparse(url).path\<close> and \<^verbatim>\<open>os.path.splitext\<close> (the Windows
  flavour \<^verbatim>\<open>ntpath\<close>, whose separators are the backslash and the slash: the program
  requires \<^verbatim>\<open>pdftoppm.exe\<close>).
\<close>

definition is_upper :: "char \<Rightarrow> bool" where
  "is_upper c = (65 \<le> (of_char c :: nat) \<and> (of_char c :: nat) \<le> 90)"

definition is_lower :: "char \<Rightarrow> bool" where
  "is_lower c = (97 \<le> (of_char c :: nat) \<and> (of_char c :: nat) \<le> 122)"

definition is_digit :: "char \<Rightarrow> bool" where
  "is_digit c = (48 \<le> (of_char c :: nat) \<and> (of_char c :: nat) \<le> 57)"

definition lower_char :: "char \<Rightarrow> char" where
  "lower_char c = (if is_upper c then char_of ((of_char c :: nat) + 32) else c)"

definition lower :: "string \<Rightarrow> string" where
  "lower s = map lower_char s"

definition rfind :: "char \<Rightarrow> string \<Rightarrow> int" where
  "rfind c p =
     (if c \<in> set p then int (length p) - 1 - int (length (takeWhile (\<lambda>x. x \<noteq> c) (rev p)))
      else - 1)"

subsection \<open>\<^verbatim>\<open>urlparse(url).path\<close>\<close>

text \<open>
  \<^verbatim>\<open>urlsplit\<close> strips leading C0 control characters and spaces, removes tab, line feed
  and carriage return, splits off a scheme (letters, digits, \<^verbatim>\<open>+-.\<close> before the first
  colon, starting with a letter), a network location after \<^verbatim>\<open>//\<close> (up to the first of
  \<^verbatim>\<open>/?#\<close>), the fragment after the first \<^verbatim>\<open>#\<close> and the query after the first \<^verbatim>\<open>?\<close>;
  \<^verbatim>\<open>urlparse\<close> then splits the parameters after the first \<^verbatim>\<open>;\<close> of the last path
  segment off, for the schemes that use parameters. The errors \<^verbatim>\<open>urlsplit\<close> raises on
  a malformed network location are not modelled: the URL has been fetched before it is
  parsed.
\<close>

definition c0_control_or_space :: "char \<Rightarrow> bool" where
  "c0_control_or_space c = ((of_char c :: nat) \<le> 32)"

definition unsafe_url_byte :: "char \<Rightarrow> bool" where
  "unsafe_url_byte c = ((of_char c :: nat) \<in> {9, 10, 13})"

definition scheme_char :: "char \<Rightarrow> bool" where
  "scheme_char c = (is_lower c \<or> is_upper c \<or> is_digit c \<or> c \<in> set ''+-.'')"

definition split_scheme :: "string \<Rightarrow> string \<times> string" where
  "split_scheme u =
     (let i = length (takeWhile (\<lambda>x. x \<noteq> CHR '':'') u)
      in if CHR '':'' \<in> set u \<and> 0 < i \<and> (is_lower (hd u) \<or> is_upper (hd u))
            \<and> list_all scheme_char (take i u)
         then (lower (take i u), drop (Suc i) u)
         else ([], u))"

definition splitnetloc :: "string \<Rightarrow> string \<times> string" where
  "splitnetloc u =
     (takeWhile (\<lambda>x. x \<notin> set ''/?#'') (drop 2 u), dropWhile (\<lambda>x. x \<notin> set ''/?#'') (drop 2 u))"

definition uses_params :: "string list" where
  "uses_params = [[], ''ftp'', ''hdl'', ''prospero'', ''http'', ''imap'', ''https'', ''shttp'',
                  ''rtsp'', ''rtspu'', ''sip'', ''sips'', ''mms'', ''sftp'', ''tel'']"

definition splitparams :: "string \<Rightarrow> string" where
  "splitparams u =
     (let k = nat (rfind CHR ''/'' u + 1)
      in take k u @ takeWhile (\<lambda>x. x \<noteq> CHR '';'') (drop k u))"

definition urlparse_path :: "string \<Rightarrow> string" where
  "urlparse_path u =
     (let u1 = dropWhile c0_control_or_space u;
          u2 = filter (\<lambda>x. \<not> unsafe_url_byte x) u1;
          (scheme, u3) = split_scheme u2;
          u4 = (if take 2 u3 = ''//'' then snd (splitnetloc u3) else u3);
          u5 = takeWhile (\<lambda>x. x \<noteq> CHR ''#'') u4;
          u6 = takeWhile (\<lambda>x. x \<noteq> CHR ''?'') u5
      in if scheme \<in> set uses_params \<and> CHR '';'' \<in> set u6 then splitparams u6 else u6)"

subsection \<open>\<^verbatim>\<open>os.path.splitext\<close> and \<^verbatim>\<open>_get_file_extension\<close>\<close>

text \<open>
  \<^verbatim>\<open>genericpath._splitext\<close>: with \<open>sepIndex\<close> the last separator and \<open>dotIndex\<close> the
  last dot, the extension starts at \<open>dotIndex\<close> when the dot comes after the last
  separator and some character between them is not a dot (leading dots of the file name
  do not start an extension); otherwise there is none.
\<close>

definition splitext :: "string \<Rightarrow> string \<times> string" where
  "splitext p =
     (let sepIndex = max (rfind (CHR 0x5C) p) (rfind CHR ''/'' p);
          dotIndex = rfind CHR ''.'' p
      in if dotIndex > sepIndex
            \<and> list_ex (\<lambda>x. x \<noteq> CHR ''.'')
                 (take (nat (dotIndex - (sepIndex + 1))) (drop (nat (sepIndex + 1)) p))
         then (take (nat dotIndex) p, drop (nat dotIndex) p)
         else (p, []))"

definition get_file_extension :: "string \<Rightarrow> string" where
  "get_file_extension u =
     (let parsed_path = urlparse_path u
      in lower (dropWhile (\<lambda>x. x = CHR ''.'') (snd (splitext parsed_path))))"






definition is_sep :: "char \<Rightarrow> bool" where
  "is_sep x = (x = CHR 0x5C \<or> x = CHR ''/'')"

section \<open>The extension of a URL\<close>

lemma rfind_eq: "rfind c p = int (length p) - 1 - int (length (takeWhile (\<lambda>x. x \<noteq> c) (rev p)))"
proof (cases "c \<in> set p")
  case True
  then show ?thesis by (simp add: rfind_def)
next
  case False
  then have "takeWhile (\<lambda>x. x \<noteq> c) (rev p) = rev p"
    by (intro takeWhile_eq_all_conv [THEN iffD2]) auto
  then have "length (takeWhile (\<lambda>x. x \<noteq> c) (rev p)) = length p"
    by (simp only: length_rev)
  then show ?thesis using False by (simp add: rfind_def)
qed




lemma rfind_ge: "- 1 \<le> rfind c p"
proof -
  have "length (takeWhile (\<lambda>x. x \<noteq> c) (rev p)) \<le> length (rev p)"
    by (rule length_takeWhile_le)
  then show ?thesis by (simp add: rfind_eq)
qed















section \<open>The environment, the scratch store and the worker\<close>

subsection \<open>Formatting numbers, column letters and paths\<close>

text \<open>
  \<open>str_nat\<close> is the decimal formatting of an f-string. \<open>column_letters\<close> is the loop of
  the spreadsheet library's \<^verbatim>\<open>_get_column_letter\<close> (bijective base 26: \<open>A\<close> .. \<open>Z\<close>,
  \<open>AA\<close> ..), and \<open>get_column_letter\<close> raises \<^verbatim>\<open>ValueError\<close> outside \<open>1 .. 18278\<close>
  (\<open>A\<close> .. \<open>ZZZ\<close>). \<open>path_join\<close> is \<^verbatim>\<open>os.path.join\<close> (\<^verbatim>\<open>ntpath\<close>) for a second
  component that is a plain file name: the name is appended to the directory, after
  a backslash unless the directory is empty, ends with a separator or is a bare drive.
\<close>

fun str_nat :: "nat \<Rightarrow> string" where
  "str_nat n =
     (if n < 10 then [char_of (48 + n)] else str_nat (n div 10) @ [char_of (48 + n mod 10)])"

declare str_nat.simps [simp del]

function column_letters :: "nat \<Rightarrow> string" where
  "column_letters n =
     (if n = 0 then []
      else if n mod 26 = 0 then column_letters (n div 26 - 1) @ [char_of (26 + 64 :: nat)]
      else column_letters (n div 26) @ [char_of (n mod 26 + 64)])"
  by pat_completeness auto
termination
  by (relation "measure id") (auto simp: div_less_dividend intro: less_le_trans)

declare column_letters.simps [simp del]

datatype exn =
    RequestException string
  | FileNotFoundError string
  | ValueError string
  | OSError string
  | OtherException string

definition get_column_letter :: "nat \<Rightarrow> exn + string" where
  "get_column_letter idx =
     (if 1 \<le> idx \<and> idx \<le> 18278 then Inr (column_letters idx)
      else Inl (ValueError (''Invalid column index '' @ str_nat idx)))"

definition path_join :: "string \<Rightarrow> string \<Rightarrow> string" where
  "path_join dir name =
     (if dir = [] \<or> is_sep (last dir) \<or> (length dir = 2 \<and> dir ! 1 = CHR '':'')
      then dir @ name else dir @ [CHR 0x5C] @ name)"

text \<open>
  The two file names of \<^verbatim>\<open>_process_single_link\<close>:
  \<^verbatim>\<open>f"row{row}_col{link['col']}.{ext}"\<close> for the download and
  \<^verbatim>\<open>f"row{row}_col{link['col']}_p{page_num}.jpg"\<close> for a rasterized page.
\<close>

definition download_name :: "nat \<Rightarrow> nat \<Rightarrow> string \<Rightarrow> string" where
  "download_name row column ext = ''row'' @ str_nat row @ ''_col'' @ str_nat column @ ''.'' @ ext"

definition page_name :: "nat \<Rightarrow> nat \<Rightarrow> nat \<Rightarrow> string" where
  "page_name row column page_num =
     ''row'' @ str_nat row @ ''_col'' @ str_nat column @ ''_p'' @ str_nat page_num @ ''.jpg''"

subsection \<open>The world outside the program\<close>

text \<open>
  What the network, the file system and the libraries answer is a parameter of the
  model (\<open>env\<close>): the response to an HTTP request (or the exception \<^verbatim>\<open>requests.get\<close>
  raises), whether opening a path for writing raises, the pages a PDF rasterizes to
  (each as the bytes of its JPEG file), whether the image library can open some bytes
  as an image, the listing of a directory, and whether saving the workbook raises.
  What the program changes is the \<open>world\<close>: the files written, the spreadsheet
  documents on disk, the log, and the trace of the external calls made.
\<close>

type_synonym bytes = string

record response =
  status_code :: nat
  content :: bytes
  content_error :: "exn option"

record env =
  requests_get :: "string \<Rightarrow> exn + response"
  open_error :: "string \<Rightarrow> exn option"
  pdf_pages :: "string \<Rightarrow> bytes \<Rightarrow> exn + bytes list"
  image_error :: "bytes \<Rightarrow> exn option"
  listdir :: "string \<Rightarrow> exn + string list"
  save_error :: "string \<Rightarrow> exn option"

text \<open>The five logging calls of \<^verbatim>\<open>_process_single_link\<close>, with their fields.\<close>

datatype log_event =
    UnrecognizedType string nat nat
  | SkippedVideo string nat nat
  | UnsupportedType string nat nat
  | DownloadFailed string exn nat nat
  | ProcessingError string exn nat nat

datatype io_event =
    Makedirs string
  | Listdir string
  | LoadWorkbook string
  | HttpGet string
  | WriteFile string
  | SaveWorkbook string
  | Rmtree string

record world =
  files :: "string \<Rightarrow> bytes option"
  documents :: "string \<Rightarrow> worksheet option"
  log :: "log_event list"
  trace :: "io_event list"

subsection \<open>Image Embedder: \<^verbatim>\<open>_insert_image\<close>\<close>

text \<open>
  \<^verbatim>\<open>Image(img_path)\<close> opens the file (it raises when the file is missing or is not an
  image), both dimensions are then set to 180 and 120, and the image is appended to the
  worksheet's images, anchored at the cell reference \<^verbatim>\<open>f"{get_column_letter(col)}{row}"\<close>.
\<close>

definition cell_ref :: "nat \<Rightarrow> nat \<Rightarrow> string" where
  "cell_ref column row = column_letters column @ str_nat row"

definition insert_image ::
  "env \<Rightarrow> world \<Rightarrow> string \<Rightarrow> nat \<Rightarrow> nat \<Rightarrow> worksheet \<Rightarrow> exn + worksheet" where
  "insert_image e w img_path row column ws =
     (case files w img_path of
        None \<Rightarrow> Inl (FileNotFoundError img_path)
      | Some b \<Rightarrow>
          (case image_error e b of
             Some x \<Rightarrow> Inl x
           | None \<Rightarrow>
               (case get_column_letter column of
                  Inl x \<Rightarrow> Inl x
                | Inr letters \<Rightarrow>
                    Inr (ws\<lparr>images := images ws @
                          [\<lparr>ref = img_path, width = 180, height = 120,
                            anchor = letters @ str_nat row\<rparr>]\<rparr>))))"

subsection \<open>Fetch-and-Convert Worker: \<^verbatim>\<open>_process_single_link\<close>\<close>

definition raise_for_status :: "response \<Rightarrow> exn option" where
  "raise_for_status r =
     (if 400 \<le> status_code r \<and> status_code r < 600
      then Some (RequestException ''HTTPError'') else None)"

text \<open>
  Writing a file: \<^verbatim>\<open>open(path, 'wb')\<close> may raise; otherwise the file holds the bytes
  written. For the download the chunks of \<^verbatim>\<open>response.iter_content\<close> are written and
  an exception of the stream is raised after the chunks received.
\<close>

definition write_file :: "env \<Rightarrow> string \<Rightarrow> bytes \<Rightarrow> world \<Rightarrow> exn option \<times> world" where
  "write_file e path b w =
     (case open_error e path of
        Some x \<Rightarrow> (Some x, w)
      | None \<Rightarrow> (None, w\<lparr>files := (files w)(path \<mapsto> b), trace := trace w @ [WriteFile path]\<rparr>))"

definition download :: "env \<Rightarrow> string \<Rightarrow> response \<Rightarrow> world \<Rightarrow> exn option \<times> world" where
  "download e file_path r w =
     (case write_file e file_path (content r) w of
        (Some x, w') \<Rightarrow> (Some x, w')
      | (None, w') \<Rightarrow> (content_error r, w'))"

text \<open>
  The loop over the pages of a PDF, \<^verbatim>\<open>for page_num, img in enumerate(images, start=1)\<close>:
  each page is saved and then embedded at column \<open>start_col + page_num - 1\<close>; an
  exception leaves the loop, and what was embedded before stays embedded.
\<close>

fun insert_pages ::
  "env \<Rightarrow> string \<Rightarrow> link \<Rightarrow> nat \<Rightarrow> nat \<Rightarrow> nat \<Rightarrow> bytes list \<Rightarrow> worksheet \<times> world
     \<Rightarrow> exn option \<times> worksheet \<times> world" where
  "insert_pages e temp_dir l row start_col page_num [] (ws, w) = (None, ws, w)"
| "insert_pages e temp_dir l row start_col page_num (img # imgs) (ws, w) =
     (let img_path = path_join temp_dir (page_name row (col l) page_num)
      in case write_file e img_path img w of
           (Some x, w1) \<Rightarrow> (Some x, ws, w1)
         | (None, w1) \<Rightarrow>
             (case insert_image e w1 img_path row (start_col + page_num - 1) ws of
                Inl x \<Rightarrow> (Some x, ws, w1)
              | Inr ws1 \<Rightarrow>
                  insert_pages e temp_dir l row start_col (page_num + 1) imgs (ws1, w1)))"

text \<open>
  The body of the \<^verbatim>\<open>try\<close> block: it returns the exception raised, if any, together
  with the worksheet and the world as they are at that point.
\<close>

definition process_single_link_try ::
  "env \<Rightarrow> link \<Rightarrow> nat \<Rightarrow> nat \<Rightarrow> string \<Rightarrow> string \<Rightarrow> string set \<Rightarrow> worksheet \<times> world
     \<Rightarrow> exn option \<times> worksheet \<times> world" where
  "process_single_link_try e l row start_col temp_dir poppler_path video_exts s =
     (let ws = fst s;
          w0 = (snd s)\<lparr>trace := trace (snd s) @ [HttpGet (url l)]\<rparr>
      in case requests_get e (url l) of
           Inl x \<Rightarrow> (Some x, ws, w0)
         | Inr r \<Rightarrow>
             (case raise_for_status r of
                Some x \<Rightarrow> (Some x, ws, w0)
              | None \<Rightarrow>
                  (let ext = get_file_extension (url l)
                   in if ext = [] then
                        (None, ws, w0\<lparr>log := log w0 @ [UnrecognizedType (url l) row (col l)]\<rparr>)
                      else if ext \<in> video_exts then
                        (None, ws, w0\<lparr>log := log w0 @ [SkippedVideo (url l) row (col l)]\<rparr>)
                      else
                        (let file_path = path_join temp_dir (download_name row (col l) ext)
                         in case download e file_path r w0 of
                              (Some x, w1) \<Rightarrow> (Some x, ws, w1)
                            | (None, w1) \<Rightarrow>
                                if ext = ''pdf'' then
                                  (case files w1 file_path of
                                     None \<Rightarrow> (Some (FileNotFoundError file_path), ws, w1)
                                   | Some b \<Rightarrow>
                                       (case pdf_pages e poppler_path b of
                                          Inl x \<Rightarrow> (Some x, ws, w1)
                                        | Inr imgs \<Rightarrow>
                                            insert_pages e temp_dir l row start_col 1 imgs (ws, w1)))
                                else if ext \<in> {''jpg'', ''jpeg'', ''png''} then
                                  (case insert_image e w1 file_path row start_col ws of
                                     Inl x \<Rightarrow> (Some x, ws, w1)
                                   | Inr ws1 \<Rightarrow> (None, ws1, w1))
                                else
                                  (None, ws, w1\<lparr>log := log w1 @ [UnsupportedType ext row (col l)]\<rparr>)))))"

text \<open>
  The two handlers: a \<^verbatim>\<open>RequestException\<close> is logged as a failed download, any other
  exception as a processing error; nothing is raised.
\<close>

definition process_single_link ::
  "env \<Rightarrow> link \<Rightarrow> nat \<Rightarrow> nat \<Rightarrow> string \<Rightarrow> string \<Rightarrow> string set \<Rightarrow> worksheet \<times> world
     \<Rightarrow> worksheet \<times> world" where
  "process_single_link e l row start_col temp_dir poppler_path video_exts s =
     (case process_single_link_try e l row start_col temp_dir poppler_path video_exts s of
        (None, ws, w) \<Rightarrow> (ws, w)
      | (Some (RequestException m), ws, w) \<Rightarrow>
          (ws, w\<lparr>log := log w @ [DownloadFailed (url l) (RequestException m) row (col l)]\<rparr>)
      | (Some x, ws, w) \<Rightarrow>
          (ws, w\<lparr>log := log w @ [ProcessingError (url l) x row (col l)]\<rparr>))"

subsection \<open>Dimension Normalizer: \<^verbatim>\<open>_adjust_dimensions\<close>\<close>

definition set_column_width :: "worksheet \<Rightarrow> nat \<Rightarrow> exn + worksheet" where
  "set_column_width ws column =
     (case get_column_letter column of
        Inl x \<Rightarrow> Inl x
      | Inr letters \<Rightarrow> Inr (ws\<lparr>column_width := (column_width ws)(letters \<mapsto> 25)\<rparr>))"

fun adjust_columns :: "nat list \<Rightarrow> worksheet \<Rightarrow> exn + worksheet" where
  "adjust_columns [] ws = Inr ws"
| "adjust_columns (column # columns) ws =
     (case set_column_width ws column of
        Inl x \<Rightarrow> Inl x
      | Inr ws1 \<Rightarrow> adjust_columns columns ws1)"

definition adjust_dimensions :: "worksheet \<Rightarrow> exn + worksheet" where
  "adjust_dimensions ws =
     (case adjust_columns [1..<max_column ws + 1] ws of
        Inl x \<Rightarrow> Inl x
      | Inr ws1 \<Rightarrow>
          Inr (foldl (\<lambda>s row. s\<lparr>row_height := (row_height s)(row \<mapsto> 120)\<rparr>) ws1
                 [1..<max_row ws1 + 1]))"

subsection \<open>Orchestrator: \<^verbatim>\<open>_validate_poppler\<close> and \<^verbatim>\<open>process_excel_hyperlinks\<close>\<close>

definition validate_poppler :: "env \<Rightarrow> string \<Rightarrow> world \<Rightarrow> exn option \<times> world" where
  "validate_poppler e poppler_path w =
     (let w1 = w\<lparr>trace := trace w @ [Listdir poppler_path]\<rparr>
      in case listdir e poppler_path of
           Inl x \<Rightarrow> (Some x, w1)
         | Inr poppler_bin \<Rightarrow>
             (let missing_files = {''pdftoppm.exe'', ''pdfinfo.exe''} - set poppler_bin
              in if missing_files \<noteq> {}
                 then (Some (FileNotFoundError ''Missing critical Poppler files''), w1)
                 else (None, w1)))"

text \<open>
  The executor runs the submitted calls on up to \<open>max_workers\<close> threads and the
  orchestrator waits for all of them. The model runs them one after the other, in the
  order of submission. Creating the scratch directory and removing it are taken to
  succeed; \<^verbatim>\<open>load_workbook\<close> reads the document stored at the path and raises when
  there is none; \<^verbatim>\<open>wb.save\<close> raises when the environment says so. An exception of the
  orchestrator ends the run: the result is the exception, if any, the worksheet as it
  is in memory, if one was loaded, and the world.
\<close>

definition run_workers ::
  "env \<Rightarrow> string \<Rightarrow> string \<Rightarrow> string set \<Rightarrow> task list \<Rightarrow> worksheet \<times> world
     \<Rightarrow> worksheet \<times> world" where
  "run_workers e temp_dir poppler_path video_exts tasks s =
     foldl (\<lambda>s t. process_single_link e (fst t) (fst (snd t)) (snd (snd t))
                     temp_dir poppler_path video_exts s) s tasks"

definition rmtree :: "string \<Rightarrow> world \<Rightarrow> world" where
  "rmtree dir w =
     (let d = path_join dir []
      in w\<lparr>files := (\<lambda>p. if length d < length p \<and> take (length d) p = d then None else files w p),
           trace := trace w @ [Rmtree dir]\<rparr>)"

definition video_exts :: "string set" where
  "video_exts = {''mp4'', ''avi'', ''mov'', ''mkv'', ''wmv''}"

definition process_excel_hyperlinks ::
  "env \<Rightarrow> string \<Rightarrow> string \<Rightarrow> string \<Rightarrow> string \<Rightarrow> nat \<Rightarrow> world
     \<Rightarrow> exn option \<times> worksheet option \<times> world" where
  "process_excel_hyperlinks e excel_path output_path temp_dir poppler_path max_workers w =
     (let w1 = w\<lparr>trace := trace w @ [Makedirs temp_dir]\<rparr>
      in case validate_poppler e poppler_path w1 of
           (Some x, w2) \<Rightarrow> (Some x, None, w2)
         | (None, w2) \<Rightarrow>
             (let w3 = w2\<lparr>trace := trace w2 @ [LoadWorkbook excel_path]\<rparr>
              in case documents w3 excel_path of
                   None \<Rightarrow> (Some (FileNotFoundError excel_path), None, w3)
                 | Some ws \<Rightarrow>
                     (let (ws1, w4) = run_workers e temp_dir poppler_path video_exts
                                        (submissions ws) (ws, w3)
                      in case adjust_dimensions ws1 of
                           Inl x \<Rightarrow> (Some x, Some ws1, w4)
                         | Inr ws2 \<Rightarrow>
                             (let w5 = w4\<lparr>trace := trace w4 @ [SaveWorkbook output_path]\<rparr>
                              in case save_error e output_path of
                                   Some x \<Rightarrow> (Some x, Some ws2, w5)
                                 | None \<Rightarrow>
                                     (None, Some ws2,
                                      rmtree temp_dir
                                        (w5\<lparr>documents := (documents w5)(output_path \<mapsto> ws2)\<rparr>))))))"

section \<open>The effect of a worker\<close>

text \<open>
  Notions used to state what a worker does: the image embedded for a file at a cell,
  the image of page \<open>page_num\<close> of a PDF, when saving and embedding a page succeeds,
  and the number of pages embedded before the first failure.
\<close>

definition embedded_image :: "string \<Rightarrow> nat \<Rightarrow> nat \<Rightarrow> image" where
  "embedded_image img_path row column =
     \<lparr>ref = img_path, width = 180, height = 120, anchor = cell_ref column row\<rparr>"

definition page_image :: "string \<Rightarrow> nat \<Rightarrow> nat \<Rightarrow> nat \<Rightarrow> nat \<Rightarrow> image" where
  "page_image temp_dir row column start_col page_num =
     embedded_image (path_join temp_dir (page_name row column page_num)) row
       (start_col + page_num - 1)"

definition page_ok :: "env \<Rightarrow> string \<Rightarrow> nat \<Rightarrow> nat \<Rightarrow> nat \<Rightarrow> nat \<Rightarrow> bytes \<Rightarrow> bool" where
  "page_ok e temp_dir row column start_col page_num img =
     (open_error e (path_join temp_dir (page_name row column page_num)) = None
      \<and> image_error e img = None
      \<and> 1 \<le> start_col + page_num - 1 \<and> start_col + page_num - 1 \<le> 18278)"

fun pages_done :: "env \<Rightarrow> string \<Rightarrow> nat \<Rightarrow> nat \<Rightarrow> nat \<Rightarrow> nat \<Rightarrow> bytes list \<Rightarrow> nat" where
  "pages_done e temp_dir row column start_col page_num [] = 0"
| "pages_done e temp_dir row column start_col page_num (img # imgs) =
     (if page_ok e temp_dir row column start_col page_num img
      then Suc (pages_done e temp_dir row column start_col (page_num + 1) imgs) else 0)"

lemma insert_image_cases:
  "insert_image e w p row c ws =
     (if (\<exists>b. files w p = Some b \<and> image_error e b = None) \<and> 1 \<le> c \<and> c \<le> 18278
      then Inr (ws\<lparr>images := images ws @ [embedded_image p row c]\<rparr>)
      else Inl (case files w p of None \<Rightarrow> FileNotFoundError p
                | Some b \<Rightarrow> (case image_error e b of Some x \<Rightarrow> x
                   | None \<Rightarrow> ValueError (''Invalid column index '' @ str_nat c))))"
  by (auto simp: insert_image_def get_column_letter_def embedded_image_def cell_ref_def
           split: option.splits)

lemma write_file_cases:
  "write_file e p b w =
     (case open_error e p of
        Some x \<Rightarrow> (Some x, w)
      | None \<Rightarrow> (None, w\<lparr>files := (files w)(p \<mapsto> b), trace := trace w @ [WriteFile p]\<rparr>))"
  by (simp add: write_file_def)

lemma pages_done_le: "pages_done e td row c sc pn imgs \<le> length imgs"
  by (induction imgs arbitrary: pn) auto

lemma map_upt_shift: "map f [0..<Suc k] = f 0 # map (\<lambda>j. f (Suc j)) [0..<k]"
  by (simp add: upt_conv_Cons map_Suc_upt [symmetric] del: upt_Suc)

lemma insert_pages_effect:
  "\<exists>x fs tr.
     insert_pages e td l row sc pn imgs (ws, w)
       = (x, ws\<lparr>images := images ws @
                   map (\<lambda>j. page_image td row (col l) sc (pn + j))
                     [0..<pages_done e td row (col l) sc pn imgs]\<rparr>,
             w\<lparr>files := fs, trace := trace w @ tr\<rparr>)
     \<and> (x = None \<longleftrightarrow> pages_done e td row (col l) sc pn imgs = length imgs)
     \<and> set tr \<subseteq> (\<lambda>j. WriteFile (path_join td (page_name row (col l) (pn + j)))) ` {..<length imgs}"
proof (induction imgs arbitrary: pn ws w)
  case Nil
  have "w = w\<lparr>files := files w, trace := trace w @ []\<rparr>" by simp
  then show ?case by (intro exI [of _ None] exI [of _ "files w"] exI [of _ "[]"]) simp
next
  case (Cons img imgs)
  let ?p = "path_join td (page_name row (col l) pn)"
  show ?case
  proof (cases "open_error e ?p")
    case (Some x)
    have "w = w\<lparr>files := files w, trace := trace w @ []\<rparr>" by simp
    then show ?thesis using Some
      by (intro exI [of _ "Some x"] exI [of _ "files w"] exI [of _ "[]"])
         (simp add: write_file_cases page_ok_def)
  next
    case None
    let ?w1 = "w\<lparr>files := (files w)(?p \<mapsto> img), trace := trace w @ [WriteFile ?p]\<rparr>"
    show ?thesis
    proof (cases "image_error e img = None \<and> 1 \<le> sc + pn - 1 \<and> sc + pn - 1 \<le> 18278")
      case False
      then have "\<exists>y. insert_image e ?w1 ?p row (sc + pn - 1) ws = Inl y"
        by (auto simp: insert_image_cases)
      then obtain y where y: "insert_image e ?w1 ?p row (sc + pn - 1) ws = Inl y" ..
      have ok: "\<not> page_ok e td row (col l) sc pn img" using False by (auto simp: page_ok_def)
      have step: "insert_pages e td l row sc pn (img # imgs) (ws, w) = (Some y, ws, ?w1)"
        using None y by (simp add: write_file_cases Let_def)
      have "WriteFile ?p = (\<lambda>j. WriteFile (path_join td (page_name row (col l) (pn + j)))) 0"
        by simp
      then have tr: "set [WriteFile ?p]
          \<subseteq> (\<lambda>j. WriteFile (path_join td (page_name row (col l) (pn + j)))) ` {..<length (img # imgs)}"
        by (simp only: list.set insert_subset empty_subsetI simp_thms)
           (intro image_eqI [where x = 0], simp_all)
      show ?thesis
        unfolding step using ok tr
        by (intro exI [of _ "Some y"] exI [of _ "(files w)(?p \<mapsto> img)"] exI [of _ "[WriteFile ?p]"])
           (simp add: fun_upd_def)
    next
      case True
      let ?ws1 = "ws\<lparr>images := images ws @ [embedded_image ?p row (sc + pn - 1)]\<rparr>"
      have ins: "insert_image e ?w1 ?p row (sc + pn - 1) ws = Inr ?ws1"
        using True by (simp add: insert_image_cases)
      have ok: "page_ok e td row (col l) sc pn img" using True None by (simp add: page_ok_def)
      obtain x fs tr where
        ih: "insert_pages e td l row sc (pn + 1) imgs (?ws1, ?w1)
              = (x, ?ws1\<lparr>images := images ?ws1 @
                   map (\<lambda>j. page_image td row (col l) sc (pn + 1 + j))
                     [0..<pages_done e td row (col l) sc (pn + 1) imgs]\<rparr>,
                   ?w1\<lparr>files := fs, trace := trace ?w1 @ tr\<rparr>)"
        and x: "x = None \<longleftrightarrow> pages_done e td row (col l) sc (pn + 1) imgs = length imgs"
        and tr: "set tr \<subseteq> (\<lambda>j. WriteFile (path_join td (page_name row (col l) (pn + 1 + j)))) ` {..<length imgs}"
        using Cons.IH [of "pn + 1" ?ws1 ?w1] by blast
      have step: "insert_pages e td l row sc pn (img # imgs) (ws, w)
                    = insert_pages e td l row sc (pn + 1) imgs (?ws1, ?w1)"
        using None ins by (simp add: write_file_cases Let_def)
      have imgs_eq: "images ?ws1 @ map (\<lambda>j. page_image td row (col l) sc (pn + 1 + j))
                     [0..<pages_done e td row (col l) sc (pn + 1) imgs]
          = images ws @ map (\<lambda>j. page_image td row (col l) sc (pn + j))
                     [0..<pages_done e td row (col l) sc pn (img # imgs)]"
        using ok by (simp add: map_upt_shift page_image_def del: upt_Suc)
      have tr': "set (WriteFile ?p # tr)
            \<subseteq> (\<lambda>j. WriteFile (path_join td (page_name row (col l) (pn + j)))) ` {..<length (img # imgs)}"
      proof
        fix ev assume "ev \<in> set (WriteFile ?p # tr)"
        then consider "ev = WriteFile ?p" | "ev \<in> set tr" by auto
        then show "ev \<in> (\<lambda>j. WriteFile (path_join td (page_name row (col l) (pn + j)))) ` {..<length (img # imgs)}"
        proof cases
          case 1
          then have "ev = (\<lambda>j. WriteFile (path_join td (page_name row (col l) (pn + j)))) 0" by simp
          then show ?thesis by (intro image_eqI [where x = 0]) simp_all
        next
          case 2
          then obtain j where j: "j < length imgs"
            and ev: "ev = WriteFile (path_join td (page_name row (col l) (pn + 1 + j)))"
            using tr by auto
          show ?thesis using j ev by (intro image_eqI [where x = "Suc j"]) simp_all
        qed
      qed
      show ?thesis
        unfolding step ih imgs_eq
        using x ok tr'
        by (intro exI [of _ x] exI [of _ fs] exI [of _ "WriteFile ?p # tr"]) simp
    qed
  qed
qed

definition apply_effect ::
  "worksheet \<times> world \<Rightarrow> image list \<Rightarrow> (string \<Rightarrow> bytes option) \<Rightarrow> log_event list
     \<Rightarrow> io_event list \<Rightarrow> worksheet \<times> world" where
  "apply_effect s imgs fs evs tr =
     ((fst s)\<lparr>images := images (fst s) @ imgs\<rparr>,
      (snd s)\<lparr>files := fs, log := log (snd s) @ evs, trace := trace (snd s) @ tr\<rparr>)"

definition link_files :: "string \<Rightarrow> nat \<Rightarrow> nat \<Rightarrow> string set" where
  "link_files temp_dir row column =
     {path_join temp_dir (download_name row column ext) |ext. True}
     \<union> {path_join temp_dir (page_name row column k) |k. 1 \<le> k}"

lemma apply_effect_id: "(ws, w) = apply_effect (ws, w) [] (files w) [] []"
  by (simp add: apply_effect_def)

definition link_outcome ::
  "env \<Rightarrow> string \<Rightarrow> string \<Rightarrow> link \<Rightarrow> nat \<Rightarrow> nat \<Rightarrow> exn option \<Rightarrow> image list
     \<Rightarrow> log_event list \<Rightarrow> io_event list \<Rightarrow> bool" where
  "link_outcome e temp_dir poppler_path l row start_col x imgs evs tr =
     (map anchor imgs = map (\<lambda>j. cell_ref (start_col + j) row) [0..<length imgs]
      \<and> (\<forall>i \<in> set imgs. width i = 180 \<and> height i = 120)
      \<and> (imgs = []
         \<or> (get_file_extension (url l) \<in> {''jpg'', ''jpeg'', ''png''} \<and> length imgs = 1 \<and> x = None)
         \<or> (get_file_extension (url l) = ''pdf''
            \<and> (\<exists>r pages. requests_get e (url l) = Inr r
                  \<and> pdf_pages e poppler_path (content r) = Inr pages
                  \<and> length imgs \<le> length pages
                  \<and> (x \<noteq> None \<longrightarrow> length imgs < length pages))))
      \<and> length evs \<le> 1 \<and> (x \<noteq> None \<longrightarrow> evs = []) \<and> (imgs \<noteq> [] \<longrightarrow> evs = [])
      \<and> (x = None \<and> get_file_extension (url l) \<notin> {''pdf'', ''jpg'', ''jpeg'', ''png''}
           \<longrightarrow> length evs = 1)
      \<and> set tr \<subseteq> WriteFile ` link_files temp_dir row (col l))"

lemma try_effect:
  fixes e l row sc td pp vx ws w
  defines "ext \<equiv> get_file_extension (url l)"
  shows "\<exists>x imgs fs evs tr.
      process_single_link_try e l row sc td pp vx (ws, w)
        = (x, apply_effect (ws, w) imgs fs evs (HttpGet (url l) # tr))
    \<and> link_outcome e td pp l row sc x imgs evs tr"
    (is "\<exists>x imgs fs evs tr. ?R x imgs fs evs tr")
proof -
  let ?w0 = "w\<lparr>trace := trace w @ [HttpGet (url l)]\<rparr>"
  let ?fp = "path_join td (download_name row (col l) ext)"
  have fp: "WriteFile ?fp \<in> WriteFile ` link_files td row (col l)"
    by (auto simp: link_files_def)
  show ?thesis
  proof (cases "requests_get e (url l)")
    case (Inl x)
    then have "?R (Some x) [] (files w) [] []"
      by (simp add: link_outcome_def process_single_link_try_def Let_def apply_effect_def)
    then show ?thesis by blast
  next
    case (Inr r)
    show ?thesis
    proof (cases "raise_for_status r")
      case (Some x)
      then have "?R (Some x) [] (files w) [] []"
        using Inr by (simp add: link_outcome_def process_single_link_try_def Let_def apply_effect_def)
      then show ?thesis by blast
    next
      case None
      note fetched = Inr None
      show ?thesis
      proof (cases "ext = []")
        case True
        then have "?R None [] (files w) [UnrecognizedType (url l) row (col l)] []"
          using fetched unfolding ext_def
          by (simp add: link_outcome_def process_single_link_try_def Let_def apply_effect_def)
        then show ?thesis by blast
      next
        case nonempty: False
        show ?thesis
        proof (cases "ext \<in> vx")
          case True
          then have "?R None [] (files w) [SkippedVideo (url l) row (col l)] []"
            using fetched nonempty unfolding ext_def
            by (simp add: link_outcome_def process_single_link_try_def Let_def apply_effect_def)
          then show ?thesis by blast
        next
          case novideo: False
          note classified = fetched nonempty novideo
          show ?thesis
          proof (cases "open_error e ?fp")
            case (Some x)
            then have "?R (Some x) [] (files w) [] []"
              using classified unfolding ext_def
              by (simp add: link_outcome_def process_single_link_try_def Let_def apply_effect_def download_def
                    write_file_cases)
            then show ?thesis by blast
          next
            case opened: None
            let ?fs = "(files w)(?fp \<mapsto> content r)"
            let ?w1 = "w\<lparr>files := ?fs, trace := trace w @ [HttpGet (url l), WriteFile ?fp]\<rparr>"
            have dl: "download e ?fp r ?w0 = (content_error r, ?w1)"
              using opened by (simp add: download_def write_file_cases)
            show ?thesis
            proof (cases "content_error r")
              case (Some x)
              then have "?R (Some x) [] ?fs [] [WriteFile ?fp]"
                using classified dl fp unfolding ext_def
                by (simp add: link_outcome_def process_single_link_try_def Let_def apply_effect_def)
              then show ?thesis by blast
            next
              case streamed: None
              show ?thesis
              proof (cases "ext = ''pdf''")
                case pdf: True
                show ?thesis
                proof (cases "pdf_pages e pp (content r)")
                  case (Inl x)
                  then have "?R (Some x) [] ?fs [] [WriteFile ?fp]"
                    using classified dl fp streamed pdf unfolding ext_def
                    by (simp add: link_outcome_def process_single_link_try_def Let_def apply_effect_def)
                  then show ?thesis by blast
                next
                  case pages: (Inr imgs)
                  let ?k = "pages_done e td row (col l) sc 1 imgs"
                  obtain x fs tr where
                    ip: "insert_pages e td l row sc 1 imgs (ws, ?w1)
                           = (x, ws\<lparr>images := images ws @
                                 map (\<lambda>j. page_image td row (col l) sc (1 + j)) [0..<?k]\<rparr>,
                              ?w1\<lparr>files := fs, trace := trace ?w1 @ tr\<rparr>)"
                    and x: "x = None \<longleftrightarrow> ?k = length imgs"
                    and tr: "set tr \<subseteq> (\<lambda>j. WriteFile (path_join td (page_name row (col l) (1 + j))))
                                ` {..<length imgs}"
                    using insert_pages_effect [of e td l row sc 1 imgs ws ?w1] by blast
                  have body: "process_single_link_try e l row sc td pp vx (ws, w)
                              = insert_pages e td l row sc 1 imgs (ws, ?w1)"
                    using classified dl streamed pdf pages unfolding ext_def
                    by (simp add: link_outcome_def process_single_link_try_def Let_def)
                  have k: "?k \<le> length imgs" by (rule pages_done_le)
                  have tr': "set (WriteFile ?fp # tr) \<subseteq> WriteFile ` link_files td row (col l)"
                    using tr fp by (auto simp: link_files_def)
                  have "?R x (map (\<lambda>j. page_image td row (col l) sc (1 + j)) [0..<?k]) fs []
                          (WriteFile ?fp # tr)"
                    unfolding body ip
                    using x k tr' pdf pages fetched(1)
                    unfolding ext_def
                    by (auto simp: link_outcome_def apply_effect_def page_image_def embedded_image_def)
                  then show ?thesis by blast
                qed
              next
                case nopdf: False
                show ?thesis
                proof (cases "ext \<in> {''jpg'', ''jpeg'', ''png''}")
                  case img: True
                  show ?thesis
                  proof (cases "image_error e (content r) = None \<and> 1 \<le> sc \<and> sc \<le> 18278")
                    case True
                    then have ins: "insert_image e ?w1 ?fp row sc ws
                        = Inr (ws\<lparr>images := images ws @ [embedded_image ?fp row sc]\<rparr>)"
                      by (simp add: insert_image_cases)
                    have "?R None [embedded_image ?fp row sc] ?fs [] [WriteFile ?fp]"
                      using classified dl fp streamed nopdf img ins unfolding ext_def
                      by (simp add: link_outcome_def process_single_link_try_def Let_def apply_effect_def embedded_image_def)
                    then show ?thesis by blast
                  next
                    case False
                    then have "\<exists>y. insert_image e ?w1 ?fp row sc ws = Inl y"
                      by (auto simp: insert_image_cases)
                    then obtain y where ins: "insert_image e ?w1 ?fp row sc ws = Inl y" ..
                    have "?R (Some y) [] ?fs [] [WriteFile ?fp]"
                      using classified dl fp streamed nopdf img ins unfolding ext_def
                      by (simp add: link_outcome_def process_single_link_try_def Let_def apply_effect_def)
                    then show ?thesis by blast
                  qed
                next
                  case other: False
                  have "?R None [] ?fs [UnsupportedType ext row (col l)] [WriteFile ?fp]"
                    using classified dl fp streamed nopdf other unfolding ext_def
                    by (simp add: link_outcome_def process_single_link_try_def Let_def apply_effect_def)
                  then show ?thesis by blast
                qed
              qed
            qed
          qed
        qed
      qed
    qed
  qed
qed

definition error_event :: "link \<Rightarrow> nat \<Rightarrow> exn \<Rightarrow> log_event" where
  "error_event l row x =
     (case x of RequestException m \<Rightarrow> DownloadFailed (url l) x row (col l)
      | _ \<Rightarrow> ProcessingError (url l) x row (col l))"

lemma process_single_link_eq:
  "process_single_link e l row sc td pp vx s =
     (case process_single_link_try e l row sc td pp vx s of
        (None, ws, w) \<Rightarrow> (ws, w)
      | (Some x, ws, w) \<Rightarrow> (ws, w\<lparr>log := log w @ [error_event l row x]\<rparr>))"
  by (simp add: process_single_link_def error_event_def split: prod.splits option.splits exn.splits)

lemma apply_effect_log:
  "(fst (apply_effect s imgs fs evs tr),
    (snd (apply_effect s imgs fs evs tr))\<lparr>log := log (snd (apply_effect s imgs fs evs tr)) @ evs'\<rparr>)
     = apply_effect s imgs fs (evs @ evs') tr"
  by (simp add: apply_effect_def)

lemma apply_effect_compose:
  "apply_effect (apply_effect s imgs fs evs tr) imgs' fs' evs' tr'
     = apply_effect s (imgs @ imgs') fs' (evs @ evs') (tr @ tr')"
  by (simp add: apply_effect_def)

text \<open>What a worker adds: images, log events and trace events, for a task.\<close>

definition task_effect ::
  "env \<Rightarrow> string \<Rightarrow> string \<Rightarrow> task \<Rightarrow> image list \<times> log_event list \<times> io_event list \<Rightarrow> bool" where
  "task_effect e temp_dir poppler_path t eff =
     (\<exists>x evs0 tr0.
        link_outcome e temp_dir poppler_path (fst t) (fst (snd t)) (snd (snd t)) x (fst eff) evs0 tr0
        \<and> fst (snd eff) = evs0 @ (case x of None \<Rightarrow> [] | Some y \<Rightarrow> [error_event (fst t) (fst (snd t)) y])
        \<and> snd (snd eff) = HttpGet (url (fst t)) # tr0)"

lemma worker_effect:
  "\<exists>imgs fs evs tr.
     process_single_link e l row sc td pp vx (ws, w) = apply_effect (ws, w) imgs fs evs tr
     \<and> task_effect e td pp (l, row, sc) (imgs, evs, tr)"
proof -
  obtain x imgs fs evs tr where
    body: "process_single_link_try e l row sc td pp vx (ws, w)
        = (x, apply_effect (ws, w) imgs fs evs (HttpGet (url l) # tr))"
    and out: "link_outcome e td pp l row sc x imgs evs tr"
    using try_effect [of e l row sc td pp vx ws w] by blast
  let ?evs = "evs @ (case x of None \<Rightarrow> [] | Some y \<Rightarrow> [error_event l row y])"
  have "process_single_link e l row sc td pp vx (ws, w)
          = apply_effect (ws, w) imgs fs ?evs (HttpGet (url l) # tr)"
    unfolding process_single_link_eq body
    by (cases x) (simp_all add: apply_effect_def)
  moreover have "task_effect e td pp (l, row, sc) (imgs, ?evs, HttpGet (url l) # tr)"
    unfolding task_effect_def using out
    by (intro exI [of _ x] exI [of _ evs] exI [of _ tr]) (simp split: option.splits)
  ultimately show ?thesis by blast
qed

lemma run_workers_Nil: "run_workers e td pp vx [] s = s"
  by (simp add: run_workers_def)

lemma run_workers_Cons:
  "run_workers e td pp vx (t # ts) s
     = run_workers e td pp vx ts
         (process_single_link e (fst t) (fst (snd t)) (snd (snd t)) td pp vx s)"
  by (simp add: run_workers_def)

lemma run_effect:
  "\<exists>effs fs. list_all2 (task_effect e td pp) tasks effs
     \<and> run_workers e td pp vx tasks (ws, w)
         = apply_effect (ws, w) (concat (map fst effs)) fs
             (concat (map (\<lambda>eff. fst (snd eff)) effs)) (concat (map (\<lambda>eff. snd (snd eff)) effs))"
proof (induction tasks arbitrary: ws w)
  case Nil
  have "run_workers e td pp vx [] (ws, w) = apply_effect (ws, w) [] (files w) [] []"
    by (simp add: run_workers_Nil apply_effect_def)
  then show ?case by (intro exI [of _ "[]"] exI [of _ "files w"]) simp
next
  case (Cons t ts)
  obtain l row sc where t: "t = (l, row, sc)" by (cases t) auto
  obtain imgs fs evs tr where
    step: "process_single_link e l row sc td pp vx (ws, w) = apply_effect (ws, w) imgs fs evs tr"
    and eff: "task_effect e td pp (l, row, sc) (imgs, evs, tr)"
    using worker_effect [of e l row sc td pp vx ws w] by blast
  obtain ws1 w1 where s1: "apply_effect (ws, w) imgs fs evs tr = (ws1, w1)"
    by (cases "apply_effect (ws, w) imgs fs evs tr") auto
  obtain effs fs' where
    all: "list_all2 (task_effect e td pp) ts effs"
    and run: "run_workers e td pp vx ts (ws1, w1)
         = apply_effect (ws1, w1) (concat (map fst effs)) fs'
             (concat (map (\<lambda>eff. fst (snd eff)) effs)) (concat (map (\<lambda>eff. snd (snd eff)) effs))"
    using Cons.IH [of ws1 w1] by blast
  let ?effs = "(imgs, evs, tr) # effs"
  have "run_workers e td pp vx (t # ts) (ws, w)
         = apply_effect (ws, w) (concat (map fst ?effs)) fs'
             (concat (map (\<lambda>eff. fst (snd eff)) ?effs)) (concat (map (\<lambda>eff. snd (snd eff)) ?effs))"
    unfolding run_workers_Cons t
    using step s1 run apply_effect_compose [of "(ws, w)" imgs fs evs tr]
    by simp
  moreover have "list_all2 (task_effect e td pp) (t # ts) ?effs"
    using all eff t by simp
  ultimately show ?case by blast
qed

section \<open>Cell references and scratch-file names are unambiguous\<close>

definition nat_of_str :: "string \<Rightarrow> nat" where
  "nat_of_str s = foldl (\<lambda>a c. 10 * a + ((of_char c :: nat) - 48)) 0 s"

definition column_of_letters :: "string \<Rightarrow> nat" where
  "column_of_letters s = foldl (\<lambda>a c. 26 * a + ((of_char c :: nat) - 64)) 0 s"

lemma nat_of_str_str_nat: "nat_of_str (str_nat n) = n"
proof (induction n rule: str_nat.induct)
  case (1 n)
  show ?case
  proof (cases "n < 10")
    case True
    then show ?thesis
      by (subst str_nat.simps) (simp add: nat_of_str_def)
  next
    case False
    have "n mod 10 < 10" by simp
    then have m: "(48 + n mod 10) mod 256 = 48 + n mod 10" by simp
    have "nat_of_str (str_nat n) = 10 * nat_of_str (str_nat (n div 10)) + n mod 10"
      using False m by (subst str_nat.simps) (simp add: nat_of_str_def)
    then show ?thesis using 1 False by simp
  qed
qed

lemma str_nat_inj: "str_nat a = str_nat b \<Longrightarrow> a = b"
  by (metis nat_of_str_str_nat)

lemma str_nat_digits: "\<forall>x \<in> set (str_nat n). is_digit x"
proof (induction n rule: str_nat.induct)
  case (1 n)
  show ?case
  proof (cases "n < 10")
    case True
    then show ?thesis
      by (subst str_nat.simps) (simp add: is_digit_def)
  next
    case False
    have "n mod 10 < 10" by simp
    then have m: "(48 + n mod 10) mod 256 = 48 + n mod 10" by simp
    show ?thesis
      using False 1 m by (subst str_nat.simps) (auto simp: is_digit_def)
  qed
qed


lemma column_of_letters_inverse: "column_of_letters (column_letters n) = n"
proof (induction n rule: column_letters.induct)
  case (1 n)
  show ?case
  proof (cases "n = 0")
    case True
    then show ?thesis by (subst column_letters.simps) (simp add: column_of_letters_def)
  next
    case False
    show ?thesis
    proof (cases "n mod 26 = 0")
      case True
      have "column_of_letters (column_letters n)
              = 26 * column_of_letters (column_letters (n div 26 - 1)) + 26"
        using False True by (subst column_letters.simps) (simp add: column_of_letters_def)
      moreover have "1 \<le> n div 26" using False True by auto
      ultimately show ?thesis using 1(1) False True by auto
    next
      case nz: False
      have "n mod 26 < 26" by simp
      then have m: "(n mod 26 + 64) mod 256 = n mod 26 + 64" by simp
      have "column_of_letters (column_letters n)
              = 26 * column_of_letters (column_letters (n div 26)) + n mod 26"
        using False nz m by (subst column_letters.simps) (simp add: column_of_letters_def)
      then show ?thesis using 1(2) False nz by simp
    qed
  qed
qed

lemma column_letters_inj: "column_letters a = column_letters b \<Longrightarrow> a = b"
  by (metis column_of_letters_inverse)


lemma split_at_class:
  assumes "\<forall>x \<in> set a. P x" and "\<forall>x \<in> set a'. P x"
    and "b = [] \<or> \<not> P (hd b)" and "b' = [] \<or> \<not> P (hd b')"
    and "a @ b = a' @ b'"
  shows "a = a' \<and> b = b'"
proof -
  have t: "takeWhile P (a @ b) = a" if "\<forall>x \<in> set a. P x" "b = [] \<or> \<not> P (hd b)" for a b :: "'a list"
  proof (cases b)
    case Nil
    then show ?thesis using that by simp
  next
    case (Cons y ys)
    then show ?thesis using that by (simp add: takeWhile_append2)
  qed
  have "a = takeWhile P (a @ b)" using t [OF assms(1,3)] by simp
  also have "\<dots> = takeWhile P (a' @ b')" using assms(5) by simp
  also have "\<dots> = a'" using t [OF assms(2,4)] .
  finally have "a = a'" .
  then show ?thesis using assms(5) by simp
qed


lemma digits_then:
  assumes "\<not> is_digit y" and "\<not> is_digit y'"
    and "str_nat a @ y # b = str_nat a' @ y' # b'"
  shows "a = a' \<and> y # b = y' # b'"
proof -
  have "str_nat a = str_nat a' \<and> y # b = y' # b'"
    by (rule split_at_class [where P = is_digit])
       (use assms str_nat_digits in auto)
  then show ?thesis using str_nat_inj by blast
qed

lemma name_prefix_inj:
  assumes "\<not> is_digit y" and "\<not> is_digit y'"
    and "''row'' @ str_nat r @ ''_col'' @ str_nat c @ y # b
          = ''row'' @ str_nat r' @ ''_col'' @ str_nat c' @ y' # b'"
  shows "r = r' \<and> c = c'"
proof -
  have u: "\<not> is_digit CHR ''_''" by (simp add: is_digit_def)
  have "str_nat r @ CHR ''_'' # (''col'' @ str_nat c @ y # b)
          = str_nat r' @ CHR ''_'' # (''col'' @ str_nat c' @ y' # b')"
    using assms(3) by simp
  from digits_then [OF u u this]
  have r: "r = r'" and "str_nat c @ y # b = str_nat c' @ y' # b'" by simp_all
  from digits_then [OF assms(1,2) this(2)] r show ?thesis by simp
qed

lemma path_join_inj: "path_join d a = path_join d b \<Longrightarrow> a = b"
  by (simp add: path_join_def split: if_splits)

lemma link_files_disjoint:
  assumes "(row, c) \<noteq> (row', c')"
  shows "link_files td row c \<inter> link_files td row' c' = {}"
proof -
  have dot: "\<not> is_digit CHR ''.''" and u: "\<not> is_digit CHR ''_''"
    by (simp_all add: is_digit_def)
  have shape: "\<exists>y b. \<not> is_digit y \<and> p = path_join td (''row'' @ str_nat r @ ''_col'' @ str_nat k @ y # b)"
    if "p \<in> link_files td r k" for p r k
  proof -
    from that consider ext where "p = path_join td (download_name r k ext)"
      | j where "p = path_join td (page_name r k j)"
      by (auto simp: link_files_def)
    then show ?thesis
    proof cases
      case 1
      then have "p = path_join td (''row'' @ str_nat r @ ''_col'' @ str_nat k @ CHR ''.'' # ext)"
        by (simp add: download_name_def)
      then show ?thesis using dot by blast
    next
      case 2
      then have "p = path_join td (''row'' @ str_nat r @ ''_col'' @ str_nat k
                  @ CHR ''_'' # (''p'' @ str_nat j @ ''.jpg''))"
        by (simp add: page_name_def)
      then show ?thesis using u by blast
    qed
  qed
  show ?thesis
  proof (rule ccontr)
    assume "link_files td row c \<inter> link_files td row' c' \<noteq> {}"
    then obtain p where p: "p \<in> link_files td row c" and p': "p \<in> link_files td row' c'"
      by blast
    from shape [OF p] obtain y b where y: "\<not> is_digit y"
      and e: "p = path_join td (''row'' @ str_nat row @ ''_col'' @ str_nat c @ y # b)" by blast
    from shape [OF p'] obtain y' b' where y': "\<not> is_digit y'"
      and e': "p = path_join td (''row'' @ str_nat row' @ ''_col'' @ str_nat c' @ y' # b')" by blast
    have "''row'' @ str_nat row @ ''_col'' @ str_nat c @ y # b
            = ''row'' @ str_nat row' @ ''_col'' @ str_nat c' @ y' # b'"
      using e e' path_join_inj by metis
    from name_prefix_inj [OF y y' this] assms show False by simp
  qed
qed

section \<open>The worker on the success paths\<close>

lemma pages_done_all:
  "(\<forall>j < length imgs. page_ok e td row c sc (pn + j) (imgs ! j))
     \<Longrightarrow> pages_done e td row c sc pn imgs = length imgs"
proof (induction imgs arbitrary: pn)
  case Nil
  then show ?case by simp
next
  case (Cons img imgs)
  have h: "page_ok e td row c sc pn img" using Cons.prems by force
  have "\<forall>j < length imgs. page_ok e td row c sc (pn + 1 + j) (imgs ! j)"
  proof (intro allI impI)
    fix j assume "j < length imgs"
    then have "page_ok e td row c sc (pn + Suc j) ((img # imgs) ! Suc j)"
      using Cons.prems by (metis Suc_less_eq length_Cons)
    then show "page_ok e td row c sc (pn + 1 + j) (imgs ! j)" by simp
  qed
  then show ?case using Cons.IH [of "pn + 1"] h by simp
qed

lemma map_pages_shift: "map (\<lambda>j. f (1 + j)) [0..<n] = map f [1..<Suc n]"
proof -
  have "map f [1..<Suc n] = map f (map Suc [0..<n])" by (simp only: map_Suc_upt One_nat_def)
  then show ?thesis by simp
qed

lemma process_single_link_None:
  "process_single_link_try e l row sc td pp vx s = (None, s') \<Longrightarrow>
   process_single_link e l row sc td pp vx s = s'"
  by (cases s') (simp add: process_single_link_eq)

lemma process_single_link_Some:
  "process_single_link_try e l row sc td pp vx s = (Some x, ws', w') \<Longrightarrow>
   process_single_link e l row sc td pp vx s = (ws', w'\<lparr>log := log w' @ [error_event l row x]\<rparr>)"
  by (simp add: process_single_link_eq)

lemma pdf_not_video: "''pdf'' \<notin> video_exts" "''jpg'' \<notin> video_exts" "''jpeg'' \<notin> video_exts"
  "''png'' \<notin> video_exts"
  by (simp_all add: video_exts_def)

section \<open>Concrete environments\<close>

text \<open>
  \<open>ex_env\<close> answers every request with status 200, rasterizes every PDF to two pages,
  and lets every file operation succeed.
\<close>

definition ok_response :: "bytes \<Rightarrow> response" where
  "ok_response b = \<lparr>status_code = 200, content = b, content_error = None\<rparr>"

definition ex_env :: env where
  "ex_env = \<lparr>requests_get = (\<lambda>u. Inr (ok_response (''content of '' @ u))),
     open_error = (\<lambda>p. None),
     pdf_pages = (\<lambda>pp b. Inr [''page 1'', ''page 2'']),
     image_error = (\<lambda>b. None),
     listdir = (\<lambda>p. Inr [''pdfinfo.exe'', ''pdftoppm.exe'']),
     save_error = (\<lambda>p. None)\<rparr>"

definition ex_world :: world where
  "ex_world = \<lparr>files = (\<lambda>p. None), documents = [''in.xlsx'' \<mapsto> ex_sheet], log = [], trace = []\<rparr>"

definition pdf_link :: link where
  "pdf_link = \<lparr>cell = (2, 1), url = ''http://h/b.pdf'', col = 1\<rparr>"

definition png_link :: link where
  "png_link = \<lparr>cell = (1, 1), url = ''http://h/a.png'', col = 1\<rparr>"

section \<open>Claims about one link\<close>

lemma pdf_pages_ok:
  assumes "requests_get e (url l) = Inr r" and "raise_for_status r = None"
    and "get_file_extension (url l) = ''pdf''"
    and "open_error e (path_join td (download_name row (col l) ''pdf'')) = None"
    and "content_error r = None"
    and "pdf_pages e pp (content r) = Inr pages"
    and "\<forall>k. 1 \<le> k \<and> k \<le> length pages \<longrightarrow> page_ok e td row (col l) sc k (pages ! (k - 1))"
  shows "\<exists>fs tr. process_single_link e l row sc td pp video_exts (ws, w)
           = (ws\<lparr>images := images ws @
                 map (\<lambda>k. \<lparr>ref = path_join td (page_name row (col l) k), width = 180,
                           height = 120, anchor = cell_ref (sc + k - 1) row\<rparr>)
                   [1..<Suc (length pages)]\<rparr>,
              w\<lparr>files := fs, trace := trace w @ tr\<rparr>)"
proof -
  let ?fp = "path_join td (download_name row (col l) ''pdf'')"
  let ?w1 = "w\<lparr>files := (files w)(?fp \<mapsto> content r),
               trace := trace w @ [HttpGet (url l), WriteFile ?fp]\<rparr>"
  have body: "process_single_link_try e l row sc td pp video_exts (ws, w)
                = insert_pages e td l row sc 1 pages (ws, ?w1)"
    using assms(1-6) pdf_not_video(1)
    by (simp add: process_single_link_try_def Let_def download_def write_file_cases)
  have "\<forall>j < length pages. page_ok e td row (col l) sc (1 + j) (pages ! j)"
  proof (intro allI impI)
    fix j assume "j < length pages"
    then have "page_ok e td row (col l) sc (Suc j) (pages ! (Suc j - 1))"
      using assms(7) by (intro assms(7) [rule_format]) simp
    then show "page_ok e td row (col l) sc (1 + j) (pages ! j)" by simp
  qed
  then have alldone: "pages_done e td row (col l) sc 1 pages = length pages"
    by (rule pages_done_all)
  obtain x fs tr where
    ip: "insert_pages e td l row sc 1 pages (ws, ?w1)
           = (x, ws\<lparr>images := images ws @
                 map (\<lambda>j. page_image td row (col l) sc (1 + j))
                   [0..<pages_done e td row (col l) sc 1 pages]\<rparr>,
              ?w1\<lparr>files := fs, trace := trace ?w1 @ tr\<rparr>)"
    and x: "x = None \<longleftrightarrow> pages_done e td row (col l) sc 1 pages = length pages"
    using insert_pages_effect [of e td l row sc 1 pages ws ?w1] by blast
  have x': "x = None" using x alldone by simp
  have imgs: "map (\<lambda>j. page_image td row (col l) sc (1 + j)) [0..<length pages]
      = map (\<lambda>k. \<lparr>ref = path_join td (page_name row (col l) k), width = 180,
                           height = 120, anchor = cell_ref (sc + k - 1) row\<rparr>)
                   [1..<Suc (length pages)]"
    unfolding map_pages_shift [of "page_image td row (col l) sc"]
    by (simp add: page_image_def embedded_image_def)
  have "process_single_link e l row sc td pp video_exts (ws, w)
          = (ws\<lparr>images := images ws @
                 map (\<lambda>k. \<lparr>ref = path_join td (page_name row (col l) k), width = 180,
                           height = 120, anchor = cell_ref (sc + k - 1) row\<rparr>)
                   [1..<Suc (length pages)]\<rparr>,
             ?w1\<lparr>files := fs, trace := trace ?w1 @ tr\<rparr>)"
    using process_single_link_None [of e l row sc td pp video_exts "(ws, w)"]
      body ip x' alldone imgs by simp
  then show ?thesis
    by (intro exI [of _ fs] exI [of _ "[HttpGet (url l), WriteFile ?fp] @ tr"]) simp
qed

text \<open>
  Claim C3, as the code has it. A link whose extension is \<^verbatim>\<open>pdf\<close>, that is fetched
  (no transport error, no HTTP error status, the body streamed and written to the
  scratch store), that rasterizes to \<open>k\<close> pages, and each of whose pages is saved and
  embedded without error (\<open>page_ok\<close>: the page file can be written, it opens as an
  image, and its column is a valid column index), gets exactly \<open>k\<close> images embedded
  in its row, page \<open>p\<close> at column \<open>start_col + p - 1\<close>; nothing is logged.
\<close>

theorem pdf_pages_embedded:
  assumes "requests_get e (url l) = Inr r" and "raise_for_status r = None"
    and "get_file_extension (url l) = ''pdf''"
    and "open_error e (path_join td (download_name row (col l) ''pdf'')) = None"
    and "content_error r = None"
    and "pdf_pages e pp (content r) = Inr pages"
    and "\<forall>k. 1 \<le> k \<and> k \<le> length pages \<longrightarrow> page_ok e td row (col l) sc k (pages ! (k - 1))"
  shows "\<exists>fs tr. process_single_link e l row sc td pp video_exts (ws, w)
           = (ws\<lparr>images := images ws @
                 map (\<lambda>k. \<lparr>ref = path_join td (page_name row (col l) k), width = 180,
                           height = 120, anchor = cell_ref (sc + k - 1) row\<rparr>)
                   [1..<Suc (length pages)]\<rparr>,
              w\<lparr>files := fs, trace := trace w @ tr\<rparr>)"
  using assms by (rule pdf_pages_ok)

lemma raster_image_ok:
  assumes "requests_get e (url l) = Inr r" and "raise_for_status r = None"
    and "get_file_extension (url l) \<in> {''jpg'', ''jpeg'', ''png''}"
    and "open_error e (path_join td (download_name row (col l) (get_file_extension (url l)))) = None"
    and "content_error r = None"
    and "image_error e (content r) = None"
    and "1 \<le> sc" and "sc \<le> 18278"
  shows "\<exists>fs tr. process_single_link e l row sc td pp video_exts (ws, w)
           = (ws\<lparr>images := images ws @
                 [\<lparr>ref = path_join td (download_name row (col l) (get_file_extension (url l))),
                   width = 180, height = 120, anchor = cell_ref sc row\<rparr>]\<rparr>,
              w\<lparr>files := fs, trace := trace w @ tr\<rparr>)"
proof -
  let ?ext = "get_file_extension (url l)"
  let ?fp = "path_join td (download_name row (col l) ?ext)"
  let ?w1 = "w\<lparr>files := (files w)(?fp \<mapsto> content r),
               trace := trace w @ [HttpGet (url l), WriteFile ?fp]\<rparr>"
  have nv: "?ext \<notin> video_exts" "?ext \<noteq> []" "?ext \<noteq> ''pdf''"
    using assms(3) by (auto simp: video_exts_def)
  have ins: "insert_image e ?w1 ?fp row sc ws
      = Inr (ws\<lparr>images := images ws @ [embedded_image ?fp row sc]\<rparr>)"
    using assms(6-8) by (simp add: insert_image_cases)
  have body: "process_single_link_try e l row sc td pp video_exts (ws, w)
                = (None, ws\<lparr>images := images ws @ [embedded_image ?fp row sc]\<rparr>, ?w1)"
    using assms(1-5) nv ins
    by (simp add: process_single_link_try_def Let_def download_def write_file_cases)
  show ?thesis
    using process_single_link_None [OF body]
    by (intro exI [of _ "(files w)(?fp \<mapsto> content r)"]
              exI [of _ "[HttpGet (url l), WriteFile ?fp]"])
       (simp add: embedded_image_def)
qed
lemma ext_pdf: "get_file_extension ''http://h/b.pdf'' = ''pdf''" by code_simp
lemma ext_png: "get_file_extension ''http://h/a.png'' = ''png''" by code_simp

theorem pdf_pages_embedded_witness:
  "requests_get ex_env (url pdf_link) = Inr (ok_response ''content of http://h/b.pdf'')
   \<and> raise_for_status (ok_response ''content of http://h/b.pdf'') = None
   \<and> get_file_extension (url pdf_link) = ''pdf''
   \<and> pdf_pages ex_env ''bin'' (content (ok_response ''content of http://h/b.pdf'')) = Inr [''page 1'', ''page 2'']
   \<and> (\<exists>fs tr. process_single_link ex_env pdf_link 2 3 ''tmp/'' ''bin'' video_exts (ex_sheet, ex_world)
           = (ex_sheet\<lparr>images := images ex_sheet @
                 map (\<lambda>k. \<lparr>ref = path_join ''tmp/'' (page_name 2 (col pdf_link) k), width = 180,
                           height = 120, anchor = cell_ref (3 + k - 1) 2\<rparr>)
                   [1..<Suc (length [''page 1'', ''page 2''])]\<rparr>,
              ex_world\<lparr>files := fs, trace := trace ex_world @ tr\<rparr>))"
proof -
  let ?r = "ok_response ''content of http://h/b.pdf''"
  have h1: "requests_get ex_env (url pdf_link) = Inr ?r"
    by (simp add: ex_env_def pdf_link_def)
  have h2: "raise_for_status ?r = None" by (simp add: raise_for_status_def ok_response_def)
  have h3: "get_file_extension (url pdf_link) = ''pdf''" by (simp add: pdf_link_def ext_pdf)
  have h4: "open_error ex_env (path_join ''tmp/'' (download_name 2 (col pdf_link) ''pdf'')) = None"
    by (simp add: ex_env_def)
  have h5: "content_error ?r = None" by (simp add: ok_response_def)
  have h6: "pdf_pages ex_env ''bin'' (content ?r) = Inr [''page 1'', ''page 2'']"
    by (simp add: ex_env_def)
  have h7: "\<forall>k. 1 \<le> k \<and> k \<le> length [''page 1'', ''page 2''] \<longrightarrow>
      page_ok ex_env ''tmp/'' 2 (col pdf_link) 3 k ([''page 1'', ''page 2''] ! (k - 1))"
    by (simp add: page_ok_def ex_env_def)
  show ?thesis
    using h1 h2 h3 h6 pdf_pages_embedded [OF h1 h2 h3 h4 h5 h6 h7, of ex_sheet ex_world]
    by blast
qed

text \<open>
  Claim C3 as the specification words it fails when a page cannot be embedded: here the
  link is fetched and rasterizes to two pages, both page files are written, opening
  the file of page 2 as an image raises, and one image is embedded, not two.
\<close>

definition bad_page_env :: env where
  "bad_page_env = ex_env\<lparr>image_error :=
     (\<lambda>b. if b = ''page 2'' then Some (OtherException ''cannot identify image file'') else None)\<rparr>"

theorem pdf_page_embed_fails:
  "requests_get bad_page_env (url pdf_link) = Inr (ok_response ''content of http://h/b.pdf'')
   \<and> raise_for_status (ok_response ''content of http://h/b.pdf'') = None
   \<and> get_file_extension (url pdf_link) = ''pdf''
   \<and> pdf_pages bad_page_env ''bin'' (content (ok_response ''content of http://h/b.pdf''))
        = Inr [''page 1'', ''page 2'']
   \<and> open_error bad_page_env ''tmp/row2_col1_p1.jpg'' = None
   \<and> open_error bad_page_env ''tmp/row2_col1_p2.jpg'' = None
   \<and> map anchor (images (fst (process_single_link bad_page_env pdf_link 2 3 ''tmp/'' ''bin''
          video_exts (ex_sheet, ex_world)))) = [''C2'']"
  by code_simp

text \<open>The URLs requested over the network, in a trace.\<close>

definition requested :: "io_event list \<Rightarrow> string list" where
  "requested tr = List.map_filter (\<lambda>ev. case ev of HttpGet u \<Rightarrow> Some u | _ \<Rightarrow> None) tr"

lemma requested_append: "requested (a @ b) = requested a @ requested b"
  by (simp add: requested_def map_filter_def)

lemma requested_writes: "set tr \<subseteq> range WriteFile \<Longrightarrow> requested tr = []"
  by (induction tr) (auto simp: requested_def map_filter_def)

lemma requested_Cons_HttpGet: "requested (HttpGet u # tr) = u # requested tr"
  by (simp add: requested_def map_filter_def)

lemma task_effect_requested:
  "task_effect e td pp t eff \<Longrightarrow> requested (snd (snd eff)) = [url (fst t)]"
proof -
  assume "task_effect e td pp t eff"
  then obtain x evs0 tr0 where
    o: "link_outcome e td pp (fst t) (fst (snd t)) (snd (snd t)) x (fst eff) evs0 tr0"
    and tr: "snd (snd eff) = HttpGet (url (fst t)) # tr0"
    unfolding task_effect_def by blast
  have "set tr0 \<subseteq> range WriteFile" using o by (auto simp: link_outcome_def)
  then show ?thesis using tr by (simp add: requested_Cons_HttpGet requested_writes)
qed

lemma effects_requested:
  "list_all2 (task_effect e td pp) tasks effs \<Longrightarrow>
   requested (concat (map (\<lambda>eff. snd (snd eff)) effs)) = map (\<lambda>t. url (fst t)) tasks"
  by (induction rule: list_all2_induct)
     (simp_all add: requested_def map_filter_simps requested_append [unfolded requested_def]
                    task_effect_requested [unfolded requested_def])

lemma run_workers_requested:
  "requested (trace (snd (run_workers e td pp vx tasks (ws, w))))
     = requested (trace w) @ map (\<lambda>t. url (fst t)) tasks"
proof -
  obtain effs fs where all: "list_all2 (task_effect e td pp) tasks effs"
    and run: "run_workers e td pp vx tasks (ws, w)
         = apply_effect (ws, w) (concat (map fst effs)) fs
             (concat (map (\<lambda>eff. fst (snd eff)) effs)) (concat (map (\<lambda>eff. snd (snd eff)) effs))"
    using run_effect [of e td pp tasks vx ws w] by blast
  show ?thesis
    unfolding run using effects_requested [OF all]
    by (simp add: apply_effect_def requested_append)
qed

lemma failure_effect:
  assumes "process_single_link_try e l row sc td pp vx (ws, w) = (Some x, ws1, w1)"
  shows "log w1 = log w
       \<and> (\<exists>imgs. images ws1 = images ws @ imgs
            \<and> (imgs = [] \<or> (get_file_extension (url l) = ''pdf''
                  \<and> (\<exists>r pages. requests_get e (url l) = Inr r
                        \<and> pdf_pages e pp (content r) = Inr pages
                        \<and> length imgs < length pages))))"
proof -
  obtain x' imgs fs evs tr where
    body: "process_single_link_try e l row sc td pp vx (ws, w)
        = (x', apply_effect (ws, w) imgs fs evs (HttpGet (url l) # tr))"
    and out: "link_outcome e td pp l row sc x' imgs evs tr"
    using try_effect [of e l row sc td pp vx ws w] by blast
  have x': "x' = Some x" and s: "(ws1, w1) = apply_effect (ws, w) imgs fs evs (HttpGet (url l) # tr)"
    using assms body by simp_all
  have evs: "evs = []" using out x' by (simp add: link_outcome_def)
  have imgs: "imgs = [] \<or> (get_file_extension (url l) = ''pdf''
                  \<and> (\<exists>r pages. requests_get e (url l) = Inr r
                        \<and> pdf_pages e pp (content r) = Inr pages
                        \<and> length imgs < length pages))"
    using out x' by (auto simp: link_outcome_def)
  have "log w1 = log w" and "images ws1 = images ws @ imgs"
    using s evs by (simp_all add: apply_effect_def)
  then show ?thesis using imgs by blast
qed

lemma error_event_context:
  "error_event l row x = DownloadFailed (url l) x row (col l)
   \<or> error_event l row x = ProcessingError (url l) x row (col l)"
  by (cases x) (simp_all add: error_event_def)

text \<open>
  Claim C5, as the code has it. The worker returns a worksheet and a world whatever
  happens: it raises nothing. When the body of its \<^verbatim>\<open>try\<close> block raises \<open>x\<close>, exactly
  one event is logged, an error carrying the URL, the exception, the row and the
  column, and nothing else is logged for the link. The images embedded before the
  exception stay: none for a link that is not a PDF, and for a PDF, whose pages are
  embedded one by one, the pages before the failing one, fewer than the PDF has. Every
  submitted link is requested, in the order of submission, whatever happens to the
  others.
\<close>

theorem failure_isolated:
  "(process_single_link_try e l row sc td pp vx (ws, w) = (Some x, ws1, w1) \<longrightarrow>
      process_single_link e l row sc td pp vx (ws, w)
        = (ws1, w1\<lparr>log := log w @ [error_event l row x]\<rparr>)
      \<and> (error_event l row x = DownloadFailed (url l) x row (col l)
         \<or> error_event l row x = ProcessingError (url l) x row (col l))
      \<and> (\<exists>imgs. images ws1 = images ws @ imgs
            \<and> (imgs = [] \<or> (get_file_extension (url l) = ''pdf''
                  \<and> (\<exists>r pages. requests_get e (url l) = Inr r
                        \<and> pdf_pages e pp (content r) = Inr pages
                        \<and> length imgs < length pages)))))
   \<and> requested (trace (snd (run_workers e td pp vx tasks (ws, w))))
        = requested (trace w) @ map (\<lambda>t. url (fst t)) tasks"
  using failure_effect [of e l row sc td pp vx ws w x ws1 w1]
    process_single_link_Some [of e l row sc td pp vx "(ws, w)" x ws1 w1]
    error_event_context [of l row x] run_workers_requested [of e td pp vx tasks ws w]
  by auto

lemma worker_dimensions:
  "\<exists>imgs w'. process_single_link e l row sc td pp vx (ws, w) = (ws\<lparr>images := images ws @ imgs\<rparr>, w')
     \<and> (\<forall>i \<in> set imgs. width i = 180 \<and> height i = 120)"
proof -
  obtain imgs fs evs tr where
    step: "process_single_link e l row sc td pp vx (ws, w) = apply_effect (ws, w) imgs fs evs tr"
    and eff: "task_effect e td pp (l, row, sc) (imgs, evs, tr)"
    using worker_effect [of e l row sc td pp vx ws w] by blast
  have "\<forall>i \<in> set imgs. width i = 180 \<and> height i = 120"
    using eff by (auto simp: task_effect_def link_outcome_def)
  then show ?thesis using step by (auto simp: apply_effect_def)
qed

text \<open>
  Claim C4, as the code has it. A link whose extension is \<^verbatim>\<open>jpg\<close>, \<^verbatim>\<open>jpeg\<close> or
  \<^verbatim>\<open>png\<close>, that is fetched (no transport error, no HTTP error status, the body
  streamed and written to the scratch store), whose bytes open as an image and whose
  reserved column is a valid column index, gets exactly one image embedded, anchored
  at \<open>(row, start_col)\<close>. Every image a worker embeds, for any link and in any
  environment, has width 180 and height 120.
\<close>

theorem raster_image_embedded:
  "(requests_get e (url l) = Inr r \<and> raise_for_status r = None
     \<and> get_file_extension (url l) \<in> {''jpg'', ''jpeg'', ''png''}
     \<and> open_error e (path_join td (download_name row (col l) (get_file_extension (url l)))) = None
     \<and> content_error r = None \<and> image_error e (content r) = None
     \<and> 1 \<le> sc \<and> sc \<le> 18278
    \<longrightarrow> (\<exists>fs tr. process_single_link e l row sc td pp video_exts (ws, w)
           = (ws\<lparr>images := images ws @
                 [\<lparr>ref = path_join td (download_name row (col l) (get_file_extension (url l))),
                   width = 180, height = 120, anchor = cell_ref sc row\<rparr>]\<rparr>,
              w\<lparr>files := fs, trace := trace w @ tr\<rparr>)))
   \<and> (\<exists>imgs w'. process_single_link e l row sc td pp vx (ws, w)
          = (ws\<lparr>images := images ws @ imgs\<rparr>, w')
        \<and> (\<forall>i \<in> set imgs. width i = 180 \<and> height i = 120))"
  using raster_image_ok [of e l r td row sc pp ws w] worker_dimensions [of e l row sc td pp vx ws w]
  by blast

lemma unsupported_effect:
  assumes "get_file_extension (url l) \<notin> {''pdf'', ''jpg'', ''jpeg'', ''png''}"
  shows "\<exists>ev w'. process_single_link e l row sc td pp vx (ws, w) = (ws, w') \<and> log w' = log w @ [ev]"
proof -
  obtain x imgs fs evs tr where
    body: "process_single_link_try e l row sc td pp vx (ws, w)
        = (x, apply_effect (ws, w) imgs fs evs (HttpGet (url l) # tr))"
    and out: "link_outcome e td pp l row sc x imgs evs tr"
    using try_effect [of e l row sc td pp vx ws w] by blast
  have imgs: "imgs = []" using out assms by (auto simp: link_outcome_def)
  show ?thesis
  proof (cases x)
    case None
    then have "length evs = 1" using out assms by (simp add: link_outcome_def)
    then obtain ev where "evs = [ev]" by (cases evs) auto
    then show ?thesis
      using process_single_link_None [of e l row sc td pp vx "(ws, w)"] body None imgs
      by (simp add: apply_effect_def)
  next
    case (Some y)
    then have "evs = []" using out by (simp add: link_outcome_def)
    then show ?thesis
      using process_single_link_Some [of e l row sc td pp vx "(ws, w)" y] body Some imgs
      by (simp add: apply_effect_def)
  qed
qed

text \<open>
  Claim C6, as the code has it. The link is fetched before it is classified. For a link
  that is fetched (no transport error, no HTTP error status): without an extension,
  nothing is embedded and the one event logged is \<open>UnrecognizedType\<close>; with a video
  extension, nothing is embedded and the one event logged is \<open>SkippedVideo\<close>; with any
  other extension outside \<^verbatim>\<open>pdf, jpg, jpeg, png\<close>, once the download is written to the
  scratch store, nothing is embedded and the one event logged is \<open>UnsupportedType\<close>.
  Whether or not the fetch succeeds, a link whose extension is outside
  \<^verbatim>\<open>pdf, jpg, jpeg, png\<close> embeds nothing and logs exactly one event.
\<close>

theorem classification_aborts:
  "(requests_get e (url l) = Inr r \<and> raise_for_status r = None \<longrightarrow>
      (get_file_extension (url l) = [] \<longrightarrow>
         process_single_link e l row sc td pp video_exts (ws, w)
           = (ws, w\<lparr>log := log w @ [UnrecognizedType (url l) row (col l)],
                    trace := trace w @ [HttpGet (url l)]\<rparr>))
    \<and> (get_file_extension (url l) \<in> video_exts \<longrightarrow>
         process_single_link e l row sc td pp video_exts (ws, w)
           = (ws, w\<lparr>log := log w @ [SkippedVideo (url l) row (col l)],
                    trace := trace w @ [HttpGet (url l)]\<rparr>))
    \<and> (get_file_extension (url l) \<noteq> [] \<and> get_file_extension (url l) \<notin> video_exts
        \<and> get_file_extension (url l) \<notin> {''pdf'', ''jpg'', ''jpeg'', ''png''}
        \<and> open_error e (path_join td (download_name row (col l) (get_file_extension (url l)))) = None
        \<and> content_error r = None \<longrightarrow>
         process_single_link e l row sc td pp video_exts (ws, w)
           = (ws, w\<lparr>files := (files w)(path_join td (download_name row (col l)
                                 (get_file_extension (url l))) \<mapsto> content r),
                    log := log w @ [UnsupportedType (get_file_extension (url l)) row (col l)],
                    trace := trace w @ [HttpGet (url l),
                       WriteFile (path_join td (download_name row (col l)
                                 (get_file_extension (url l))))]\<rparr>)))
   \<and> (get_file_extension (url l) \<notin> {''pdf'', ''jpg'', ''jpeg'', ''png''} \<longrightarrow>
        (\<exists>ev w'. process_single_link e l row sc td pp video_exts (ws, w) = (ws, w')
           \<and> log w' = log w @ [ev]))"
proof -
  let ?ext = "get_file_extension (url l)"
  have nonempty: "?ext \<noteq> []" if "?ext \<in> video_exts"
    using that by (auto simp: video_exts_def)
  have a: "process_single_link e l row sc td pp video_exts (ws, w)
           = (ws, w\<lparr>log := log w @ [UnrecognizedType (url l) row (col l)],
                    trace := trace w @ [HttpGet (url l)]\<rparr>)"
    if "requests_get e (url l) = Inr r" "raise_for_status r = None" "?ext = []"
    by (rule process_single_link_None)
       (use that in \<open>simp add: process_single_link_try_def Let_def\<close>)
  have b: "process_single_link e l row sc td pp video_exts (ws, w)
           = (ws, w\<lparr>log := log w @ [SkippedVideo (url l) row (col l)],
                    trace := trace w @ [HttpGet (url l)]\<rparr>)"
    if "requests_get e (url l) = Inr r" "raise_for_status r = None" "?ext \<in> video_exts"
    by (rule process_single_link_None)
       (use that nonempty in \<open>simp add: process_single_link_try_def Let_def\<close>)
  have c: "process_single_link e l row sc td pp video_exts (ws, w)
           = (ws, w\<lparr>files := (files w)(path_join td (download_name row (col l) ?ext) \<mapsto> content r),
                    log := log w @ [UnsupportedType ?ext row (col l)],
                    trace := trace w @ [HttpGet (url l),
                       WriteFile (path_join td (download_name row (col l) ?ext))]\<rparr>)"
    if "requests_get e (url l) = Inr r" "raise_for_status r = None" "?ext \<noteq> []"
      "?ext \<notin> video_exts" "?ext \<notin> {''pdf'', ''jpg'', ''jpeg'', ''png''}"
      "open_error e (path_join td (download_name row (col l) ?ext)) = None"
      "content_error r = None"
    by (rule process_single_link_None)
       (use that in \<open>simp add: process_single_link_try_def Let_def download_def write_file_cases\<close>)
  show ?thesis
    using a b c unsupported_effect [of l e row sc td pp video_exts ws w]
    by blast
qed

definition bad_image_env :: env where
  "bad_image_env = ex_env\<lparr>image_error := (\<lambda>b. Some (OtherException ''cannot identify image file''))\<rparr>"

definition disk_full_env :: env where
  "disk_full_env = ex_env\<lparr>open_error :=
     (\<lambda>p. if p = ''tmp/row2_col1_p2.jpg'' then Some (OSError ''No space left on device'') else None)\<rparr>"

definition offline_env :: env where
  "offline_env = ex_env\<lparr>requests_get := (\<lambda>u. Inl (RequestException ''ConnectionError''))\<rparr>"

definition readme_link :: link where
  "readme_link = \<lparr>cell = (1, 1), url = ''http://h/readme'', col = 1\<rparr>"

lemma ext_readme: "get_file_extension ''http://h/readme'' = []" by code_simp

theorem raster_image_embedded_witness:
  "requests_get ex_env (url png_link) = Inr (ok_response ''content of http://h/a.png'')
   \<and> raise_for_status (ok_response ''content of http://h/a.png'') = None
   \<and> get_file_extension (url png_link) = ''png''
   \<and> image_error ex_env (content (ok_response ''content of http://h/a.png'')) = None
   \<and> (\<exists>fs tr. process_single_link ex_env png_link 1 2 ''tmp/'' ''bin'' video_exts (ex_sheet, ex_world)
           = (ex_sheet\<lparr>images := images ex_sheet @
                 [\<lparr>ref = path_join ''tmp/'' (download_name 1 (col png_link) ''png''),
                   width = 180, height = 120, anchor = cell_ref 2 1\<rparr>]\<rparr>,
              ex_world\<lparr>files := fs, trace := trace ex_world @ tr\<rparr>))"
proof -
  let ?r = "ok_response ''content of http://h/a.png''"
  have e: "get_file_extension (url png_link) = ''png''" by (simp add: png_link_def ext_png)
  have h: "requests_get ex_env (url png_link) = Inr ?r \<and> raise_for_status ?r = None
     \<and> get_file_extension (url png_link) \<in> {''jpg'', ''jpeg'', ''png''}
     \<and> open_error ex_env (path_join ''tmp/''
           (download_name 1 (col png_link) (get_file_extension (url png_link)))) = None
     \<and> content_error ?r = None \<and> image_error ex_env (content ?r) = None
     \<and> (1::nat) \<le> 2 \<and> (2::nat) \<le> 18278"
    by (simp add: e) (simp add: ex_env_def png_link_def raise_for_status_def ok_response_def)
  show ?thesis
    using h e raster_image_embedded [of ex_env png_link ?r "''tmp/''" 1 2 "''bin''" ex_sheet ex_world]
    by simp
qed

text \<open>
  Claim C4 as the specification words it fails when the bytes fetched do not open as
  an image (a server that answers 200 with something else than the picture): the link
  is fetched, its extension is \<^verbatim>\<open>png\<close>, and no image is embedded; a processing error
  is logged.
\<close>

theorem raster_image_not_decodable:
  "requests_get bad_image_env (url png_link) = Inr (ok_response ''content of http://h/a.png'')
   \<and> raise_for_status (ok_response ''content of http://h/a.png'') = None
   \<and> get_file_extension (url png_link) = ''png''
   \<and> images (fst (process_single_link bad_image_env png_link 1 2 ''tmp/'' ''bin'' video_exts
         (ex_sheet, ex_world))) = []
   \<and> log (snd (process_single_link bad_image_env png_link 1 2 ''tmp/'' ''bin'' video_exts
         (ex_sheet, ex_world)))
       = [ProcessingError ''http://h/a.png'' (OtherException ''cannot identify image file'') 1 1]"
  by code_simp

theorem failure_isolated_witness:
  "process_single_link_try offline_env png_link 1 2 ''tmp/'' ''bin'' video_exts (ex_sheet, ex_world)
     = (Some (RequestException ''ConnectionError''), ex_sheet,
        ex_world\<lparr>trace := trace ex_world @ [HttpGet (url png_link)]\<rparr>)
   \<and> process_single_link offline_env png_link 1 2 ''tmp/'' ''bin'' video_exts (ex_sheet, ex_world)
     = (ex_sheet, ex_world\<lparr>trace := trace ex_world @ [HttpGet (url png_link)]\<rparr>
          \<lparr>log := log ex_world @ [error_event png_link 1 (RequestException ''ConnectionError'')]\<rparr>)"
proof -
  have h: "process_single_link_try offline_env png_link 1 2 ''tmp/'' ''bin'' video_exts (ex_sheet, ex_world)
     = (Some (RequestException ''ConnectionError''), ex_sheet,
        ex_world\<lparr>trace := trace ex_world @ [HttpGet (url png_link)]\<rparr>)"
    by (simp add: process_single_link_try_def offline_env_def Let_def)
  show ?thesis
    using h failure_isolated [of offline_env png_link 1 2 "''tmp/''" "''bin''" video_exts
        ex_sheet ex_world "RequestException ''ConnectionError''" ex_sheet
        "ex_world\<lparr>trace := trace ex_world @ [HttpGet (url png_link)]\<rparr>" "[]"]
    by simp
qed

text \<open>
  Claim C5 as the specification words it (no image for a link that fails) fails for a
  PDF whose second page cannot be saved: the exception is caught and logged, and the
  image of page 1 stays embedded.
\<close>

theorem failure_keeps_earlier_pages:
  "fst (process_single_link_try disk_full_env pdf_link 2 3 ''tmp/'' ''bin'' video_exts
         (ex_sheet, ex_world)) = Some (OSError ''No space left on device'')
   \<and> map anchor (images (fst (process_single_link disk_full_env pdf_link 2 3 ''tmp/'' ''bin''
         video_exts (ex_sheet, ex_world)))) = [''C2'']
   \<and> log (snd (process_single_link disk_full_env pdf_link 2 3 ''tmp/'' ''bin'' video_exts
         (ex_sheet, ex_world)))
       = [ProcessingError ''http://h/b.pdf'' (OSError ''No space left on device'') 2 1]"
  by code_simp

theorem classification_aborts_witness:
  "requests_get ex_env (url readme_link) = Inr (ok_response ''content of http://h/readme'')
   \<and> raise_for_status (ok_response ''content of http://h/readme'') = None
   \<and> get_file_extension (url readme_link) = []
   \<and> process_single_link ex_env readme_link 1 2 ''tmp/'' ''bin'' video_exts (ex_sheet, ex_world)
       = (ex_sheet, ex_world\<lparr>log := log ex_world @ [UnrecognizedType (url readme_link) 1 (col readme_link)],
                    trace := trace ex_world @ [HttpGet (url readme_link)]\<rparr>)"
proof -
  let ?r = "ok_response ''content of http://h/readme''"
  have e: "get_file_extension (url readme_link) = []" by (simp add: readme_link_def ext_readme)
  have h: "requests_get ex_env (url readme_link) = Inr ?r \<and> raise_for_status ?r = None"
    by (simp add: ex_env_def readme_link_def raise_for_status_def ok_response_def)
  show ?thesis
    using h e classification_aborts [of ex_env readme_link ?r 1 2 "''tmp/''" "''bin''" ex_sheet ex_world]
    by simp
qed

text \<open>
  Claim C6 as the specification words it (every link without an extension logs
  \<open>UnrecognizedType\<close>) fails when the fetch fails: the link is never classified, and the
  one event logged is the failed download.
\<close>

theorem no_extension_fetch_fails:
  "get_file_extension (url readme_link) = []
   \<and> images (fst (process_single_link offline_env readme_link 1 2 ''tmp/'' ''bin'' video_exts
         (ex_sheet, ex_world))) = []
   \<and> log (snd (process_single_link offline_env readme_link 1 2 ''tmp/'' ''bin'' video_exts
         (ex_sheet, ex_world)))
       = [DownloadFailed ''http://h/readme'' (RequestException ''ConnectionError'') 1 1]"
  by code_simp

section \<open>The run\<close>

subsection \<open>The submissions\<close>

lemma group_rows_distinct: "distinct (map fst (group_hyperlinks ws))"
proof -
  have "map fst (group_hyperlinks ws)
          = filter (\<lambda>r. row_links ws r \<noteq> []) [1..<Suc (max_row ws)]"
    unfolding group_hyperlinks_eq grouped_def
    by (induction "[1..<Suc (max_row ws)]") (auto simp: filter_map comp_def)
  then show ?thesis by simp
qed

lemma row_submissions_row_links:
  "row_submissions ws (r, row_links ws r)
     = map (\<lambda>i. (row_links ws r ! i, r,
                  find_insert_start_col ws r (length (row_links ws r)) + i))
         [0..<length (row_links ws r)]"
  by (simp add: row_submissions_eq sort_key_row_links)

lemma submissions_distinct:
  assumes inj: "\<And>r. distinct (map g (row_submissions ws (r, row_links ws r)))"
    and row: "\<And>r t. t \<in> set (row_submissions ws (r, row_links ws r)) \<Longrightarrow> fst (g t) = r"
  shows "distinct (map g (submissions ws))"
proof -
  have items: "\<And>item. item \<in> set (group_hyperlinks ws) \<Longrightarrow> snd item = row_links ws (fst item)"
    by (auto simp: group_hyperlinks_eq grouped_def)
  have gen: "distinct (map fst items) \<Longrightarrow> (\<forall>item \<in> set items. snd item = row_links ws (fst item))
      \<Longrightarrow> distinct (map g (concat (map (row_submissions ws) items)))" for items
  proof (induction items)
    case Nil
    then show ?case by simp
  next
    case (Cons item items)
    obtain r where item: "item = (r, row_links ws r)" using Cons.prems(2) by (cases item) auto
    have rest: "distinct (map g (concat (map (row_submissions ws) items)))"
      using Cons by simp
    have disj: "g ` set (row_submissions ws item) \<inter> g ` set (concat (map (row_submissions ws) items)) = {}"
    proof (rule ccontr)
      assume "\<not> ?thesis"
      then obtain y where "y \<in> g ` set (row_submissions ws item)"
        and "y \<in> g ` set (concat (map (row_submissions ws) items))" by blast
      then obtain t t' where t: "t \<in> set (row_submissions ws item)"
        and t': "t' \<in> set (concat (map (row_submissions ws) items))" and eq: "g t = g t'"
        by (metis imageE)
      from t' obtain item' where i': "item' \<in> set items" and t'': "t' \<in> set (row_submissions ws item')"
        by auto
      obtain r' where item': "item' = (r', row_links ws r')"
        using Cons.prems(2) i' by (cases item') auto
      have "fst (g t) = r" using row t item by simp
      moreover have "fst (g t') = r'" using row t'' item' by simp
      ultimately have "r = r'" using eq by simp
      moreover have "r \<notin> fst ` set items" using Cons.prems(1) item by simp
      ultimately show False using i' item' by force
    qed
    show ?case using rest disj inj [of r] item by simp
  qed
  show ?thesis
    unfolding submissions_def using gen [of "group_hyperlinks ws"] group_rows_distinct items
    by blast
qed


lemma cells_distinct: "distinct (map (\<lambda>t. (fst (snd t), col (fst t))) (submissions ws))"
proof (rule submissions_distinct)
  fix r
  have d: "distinct (map col (row_links ws r))"
    using sorted_col_row_links [of ws r] strict_sorted_iff by blast
  have "map (\<lambda>t. (fst (snd t), col (fst t))) (row_submissions ws (r, row_links ws r))
          = map (\<lambda>c. (r, c)) (map col (row_links ws r))"
    unfolding row_submissions_row_links by (rule nth_equalityI) simp_all
  then show "distinct (map (\<lambda>t. (fst (snd t), col (fst t))) (row_submissions ws (r, row_links ws r)))"
    using d by (simp add: distinct_map inj_on_def)
next
  fix r t assume "t \<in> set (row_submissions ws (r, row_links ws r))"
  then show "fst (fst (snd t), col (fst t)) = r"
    unfolding row_submissions_row_links by auto
qed

lemma submissions_rows:
  "t \<in> set (submissions ws) \<Longrightarrow> 1 \<le> fst (snd t) \<and> fst (snd t) \<le> max_row ws"
proof -
  assume "t \<in> set (submissions ws)"
  then obtain r links where i: "(r, links) \<in> set (group_hyperlinks ws)"
    and t: "t \<in> set (row_submissions ws (r, links))"
    unfolding submissions_def by auto
  have "fst (snd t) = r" using t unfolding row_submissions_eq by auto
  then show ?thesis using i by (simp add: in_group_hyperlinks)
qed

subsection \<open>The normalizer and the orchestrator\<close>

lemma adjust_columns_eq:
  "(\<forall>c \<in> set cs. 1 \<le> c \<and> c \<le> 18278) \<Longrightarrow>
   adjust_columns cs ws
     = Inr (ws\<lparr>column_width :=
              (\<lambda>k. if k \<in> column_letters ` set cs then Some 25 else column_width ws k)\<rparr>)"
proof (induction cs arbitrary: ws)
  case Nil
  then show ?case by simp
next
  case (Cons c cs)
  let ?ws1 = "ws\<lparr>column_width := (column_width ws)(column_letters c \<mapsto> 25)\<rparr>"
  have step: "set_column_width ws c = Inr ?ws1"
    using Cons.prems by (simp add: set_column_width_def get_column_letter_def)
  have "adjust_columns (c # cs) ws = adjust_columns cs ?ws1"
    using step by simp
  also have "\<dots> = Inr (?ws1\<lparr>column_width :=
              (\<lambda>k. if k \<in> column_letters ` set cs then Some 25 else column_width ?ws1 k)\<rparr>)"
    using Cons.prems by (intro Cons.IH) simp
  also have "\<dots> = Inr (ws\<lparr>column_width :=
              (\<lambda>k. if k \<in> column_letters ` set (c # cs) then Some 25 else column_width ws k)\<rparr>)"
    by (auto simp: fun_eq_iff)
  finally show ?case .
qed

lemma adjust_columns_images:
  "adjust_columns cs ws = Inr ws' \<Longrightarrow>
   images ws' = images ws \<and> max_row ws' = max_row ws \<and> max_column ws' = max_column ws"
proof (induction cs arbitrary: ws)
  case Nil
  then show ?case by simp
next
  case (Cons c cs)
  then show ?case
    by (auto simp: set_column_width_def split: sum.splits)
qed

lemma adjust_rows_eq:
  "foldl (\<lambda>s row. s\<lparr>row_height := (row_height s)(row \<mapsto> 120)\<rparr>) ws rs
     = ws\<lparr>row_height := (\<lambda>r. if r \<in> set rs then Some 120 else row_height ws r)\<rparr>"
proof (induction rs arbitrary: ws)
  case Nil
  then show ?case by simp
next
  case (Cons r rs)
  show ?case
    unfolding foldl_Cons Cons.IH by (auto simp: fun_eq_iff)
qed

lemma adjust_dimensions_eq:
  assumes "max_column ws \<le> 18278"
  shows "adjust_dimensions ws
     = Inr (ws\<lparr>column_width :=
                 (\<lambda>k. if k \<in> column_letters ` {1..max_column ws} then Some 25
                      else column_width ws k),
               row_height :=
                 (\<lambda>r. if 1 \<le> r \<and> r \<le> max_row ws then Some 120 else row_height ws r)\<rparr>)"
proof -
  let ?ws1 = "ws\<lparr>column_width :=
              (\<lambda>k. if k \<in> column_letters ` {1..max_column ws} then Some 25
                   else column_width ws k)\<rparr>"
  have s: "set [1..<max_column ws + 1] = {1..max_column ws}" by auto
  have "adjust_columns [1..<max_column ws + 1] ws
     = Inr (ws\<lparr>column_width :=
              (\<lambda>k. if k \<in> column_letters ` set [1..<max_column ws + 1] then Some 25
                   else column_width ws k)\<rparr>)"
    using assms by (intro adjust_columns_eq) auto
  then have c: "adjust_columns [1..<max_column ws + 1] ws = Inr ?ws1"
    unfolding s .
  have g: "(\<lambda>r. if r \<in> set [1..<max_row ?ws1 + 1] then Some 120 else row_height ?ws1 r)
         = (\<lambda>r. if 1 \<le> r \<and> r \<le> max_row ws then Some (120::nat) else row_height ws r)"
    by (auto simp: fun_eq_iff)
  show ?thesis
    unfolding adjust_dimensions_def c adjust_rows_eq sum.case g by simp
qed

lemma adjust_dimensions_images:
  "adjust_dimensions ws = Inr ws' \<Longrightarrow> images ws' = images ws"
  by (auto simp: adjust_dimensions_def adjust_rows_eq split: sum.splits
           dest: adjust_columns_images)

lemma validate_poppler_eq:
  "validate_poppler e pp w =
     ((case listdir e pp of
         Inl x \<Rightarrow> Some x
       | Inr poppler_bin \<Rightarrow>
           if {''pdftoppm.exe'', ''pdfinfo.exe''} \<subseteq> set poppler_bin then None
           else Some (FileNotFoundError ''Missing critical Poppler files'')),
      w\<lparr>trace := trace w @ [Listdir pp]\<rparr>)"
  by (auto simp: validate_poppler_def Let_def split: sum.splits)

definition poppler_present :: "env \<Rightarrow> string \<Rightarrow> bool" where
  "poppler_present e pp =
     (case listdir e pp of Inl x \<Rightarrow> False
      | Inr poppler_bin \<Rightarrow> {''pdftoppm.exe'', ''pdfinfo.exe''} \<subseteq> set poppler_bin)"

lemma run_shape:
  assumes "poppler_present e pp" and "documents w excel = Some ws"
  shows "\<exists>effs x ws' w' fs tail.
      list_all2 (task_effect e td pp) (submissions ws) effs
    \<and> process_excel_hyperlinks e excel out td pp mw w = (x, Some ws', w')
    \<and> images ws' = images ws @ concat (map fst effs)
    \<and> w' = w\<lparr>files := fs, documents := documents w',
             log := log w @ concat (map (\<lambda>eff. fst (snd eff)) effs),
             trace := trace w @ [Makedirs td, Listdir pp, LoadWorkbook excel]
                        @ concat (map (\<lambda>eff. snd (snd eff)) effs) @ tail\<rparr>
    \<and> set tail \<subseteq> {SaveWorkbook out, Rmtree td}
    \<and> (max_column ws \<le> 18278 \<longrightarrow>
          column_width ws' = (\<lambda>k. if k \<in> column_letters ` {1..max_column ws} then Some 25
                                  else column_width ws k)
        \<and> row_height ws' = (\<lambda>r. if 1 \<le> r \<and> r \<le> max_row ws then Some 120 else row_height ws r)
        \<and> (save_error e out = None \<longrightarrow> x = None \<and> documents w' out = Some ws'))"
proof -
  let ?w3 = "w\<lparr>trace := trace w @ [Makedirs td, Listdir pp, LoadWorkbook excel]\<rparr>"
  obtain effs fs where all: "list_all2 (task_effect e td pp) (submissions ws) effs"
    and run: "run_workers e td pp video_exts (submissions ws) (ws, ?w3)
         = apply_effect (ws, ?w3) (concat (map fst effs)) fs
             (concat (map (\<lambda>eff. fst (snd eff)) effs)) (concat (map (\<lambda>eff. snd (snd eff)) effs))"
    using run_effect [of e td pp "submissions ws" video_exts ws ?w3] by blast
  let ?imgs = "concat (map fst effs)"
  let ?evs = "concat (map (\<lambda>eff. fst (snd eff)) effs)"
  let ?tr = "concat (map (\<lambda>eff. snd (snd eff)) effs)"
  let ?ws1 = "ws\<lparr>images := images ws @ ?imgs\<rparr>"
  let ?w4 = "w\<lparr>files := fs, log := log w @ ?evs,
               trace := trace w @ [Makedirs td, Listdir pp, LoadWorkbook excel] @ ?tr\<rparr>"
  have run': "run_workers e td pp video_exts (submissions ws) (ws, ?w3) = (?ws1, ?w4)"
    unfolding run by (simp add: apply_effect_def)
  have v: "validate_poppler e pp (w\<lparr>trace := trace w @ [Makedirs td]\<rparr>)
             = (None, w\<lparr>trace := trace w @ [Makedirs td, Listdir pp]\<rparr>)"
  proof (cases "listdir e pp")
    case (Inl x)
    then show ?thesis using assms(1) by (simp add: poppler_present_def)
  next
    case (Inr poppler_bin)
    then have "{''pdftoppm.exe'', ''pdfinfo.exe''} \<subseteq> set poppler_bin"
      using assms(1) by (simp add: poppler_present_def)
    then show ?thesis using Inr by (simp add: validate_poppler_eq)
  qed
  note unfold = process_excel_hyperlinks_def Let_def
  show ?thesis
  proof (cases "adjust_dimensions ?ws1")
    case (Inl x)
    then have big: "\<not> max_column ws \<le> 18278"
      using adjust_dimensions_eq [of ?ws1] by auto
    have "process_excel_hyperlinks e excel out td pp mw w = (Some x, Some ?ws1, ?w4)"
      using assms(2) v run' Inl by (simp add: unfold)
    then show ?thesis
      using all big
      by (intro exI [of _ effs] exI [of _ "Some x"] exI [of _ ?ws1] exI [of _ ?w4]
            exI [of _ fs] exI [of _ "[]"]) simp
  next
    case (Inr ws2)
    have im: "images ws2 = images ws @ ?imgs"
      using adjust_dimensions_images [OF Inr] by simp
    have dims: "max_column ws \<le> 18278 \<longrightarrow>
          column_width ws2 = (\<lambda>k. if k \<in> column_letters ` {1..max_column ws} then Some 25
                                  else column_width ws k)
        \<and> row_height ws2 = (\<lambda>r. if 1 \<le> r \<and> r \<le> max_row ws then Some 120 else row_height ws r)"
      using adjust_dimensions_eq [of ?ws1] Inr by auto
    let ?w5 = "?w4\<lparr>trace := trace ?w4 @ [SaveWorkbook out]\<rparr>"
    show ?thesis
    proof (cases "save_error e out")
      case (Some x)
      have "process_excel_hyperlinks e excel out td pp mw w = (Some x, Some ws2, ?w5)"
        using assms(2) v run' Inr Some by (simp add: unfold)
      then show ?thesis
        using all im dims Some
        by (intro exI [of _ effs] exI [of _ "Some x"] exI [of _ ws2] exI [of _ ?w5]
              exI [of _ fs] exI [of _ "[SaveWorkbook out]"]) simp
    next
      case None
      let ?w6 = "rmtree td (?w5\<lparr>documents := (documents ?w5)(out \<mapsto> ws2)\<rparr>)"
      have res: "process_excel_hyperlinks e excel out td pp mw w = (None, Some ws2, ?w6)"
        using assms(2) v run' Inr None by (simp add: unfold)
      have w6: "?w6 = w\<lparr>files := files ?w6, documents := documents ?w6,
             log := log w @ ?evs,
             trace := trace w @ [Makedirs td, Listdir pp, LoadWorkbook excel]
                        @ ?tr @ [SaveWorkbook out, Rmtree td]\<rparr>"
        by (simp add: rmtree_def Let_def)
      have doc: "documents ?w6 out = Some ws2" by (simp add: rmtree_def Let_def)
      show ?thesis
        using all im dims None res w6 doc
        by (intro exI [of _ effs] exI [of _ None] exI [of _ ws2] exI [of _ ?w6]
              exI [of _ "files ?w6"] exI [of _ "[SaveWorkbook out, Rmtree td]"]) simp
    qed
  qed
qed

subsection \<open>The run of the end-to-end example\<close>

text \<open>
  The document \<open>ex_sheet\<close> in the environment \<open>ex_env\<close>: the links are submitted with
  the slots (1, 2), (2, 3) and (2, 4), and the run embeds four images.
\<close>

definition jpg_link :: link where
  "jpg_link = \<lparr>cell = (2, 2), url = ''http://h/c.jpg'', col = 2\<rparr>"

definition ex_run :: "exn option \<times> worksheet option \<times> world" where
  "ex_run = process_excel_hyperlinks ex_env ''in.xlsx'' ''out.xlsx'' ''tmp/'' ''bin'' 4 ex_world"

definition ex_images :: "image list" where
  "ex_images =
     [\<lparr>ref = ''tmp/row1_col1.png'', width = 180, height = 120, anchor = ''B1''\<rparr>,
      \<lparr>ref = ''tmp/row2_col1_p1.jpg'', width = 180, height = 120, anchor = ''C2''\<rparr>,
      \<lparr>ref = ''tmp/row2_col1_p2.jpg'', width = 180, height = 120, anchor = ''D2''\<rparr>,
      \<lparr>ref = ''tmp/row2_col2.jpg'', width = 180, height = 120, anchor = ''D2''\<rparr>]"

lemma ext_jpg: "get_file_extension ''http://h/c.jpg'' = ''jpg''" by code_simp

lemma ex_submissions:
  "submissions ex_sheet = [(png_link, 1, 2), (pdf_link, 2, 3), (jpg_link, 2, 4)]"
  by code_simp

lemma ex_names:
  "path_join ''tmp/'' (download_name 1 1 ''png'') = ''tmp/row1_col1.png''"
  "path_join ''tmp/'' (page_name 2 1 1) = ''tmp/row2_col1_p1.jpg''"
  "path_join ''tmp/'' (page_name 2 1 2) = ''tmp/row2_col1_p2.jpg''"
  "path_join ''tmp/'' (download_name 2 2 ''jpg'') = ''tmp/row2_col2.jpg''"
  "cell_ref 2 1 = ''B1''" "cell_ref 3 2 = ''C2''" "cell_ref 4 2 = ''D2''"
  by code_simp+

lemma ex_step_png:
  "\<exists>fs tr. process_single_link ex_env png_link 1 2 ''tmp/'' ''bin'' video_exts (ws, w)
     = (ws\<lparr>images := images ws @ [ex_images ! 0]\<rparr>, w\<lparr>files := fs, trace := trace w @ tr\<rparr>)"
proof -
  let ?r = "ok_response ''content of http://h/a.png''"
  have e: "get_file_extension (url png_link) = ''png''" by (simp add: png_link_def ext_png)
  have c: "col png_link = 1" by (simp add: png_link_def)
  have h1: "requests_get ex_env (url png_link) = Inr ?r" by (simp add: ex_env_def png_link_def)
  have h2: "raise_for_status ?r = None" by (simp add: raise_for_status_def ok_response_def)
  have h3: "get_file_extension (url png_link) \<in> {''jpg'', ''jpeg'', ''png''}" by (simp add: e)
  have h4: "open_error ex_env (path_join ''tmp/''
      (download_name 1 (col png_link) (get_file_extension (url png_link)))) = None"
    by (simp add: ex_env_def)
  have h5: "content_error ?r = None" by (simp add: ok_response_def)
  have h6: "image_error ex_env (content ?r) = None" by (simp add: ex_env_def)
  have h7: "(1::nat) \<le> 2" and h8: "(2::nat) \<le> 18278" by simp_all
  note st = raster_image_ok [OF h1 h2 h3 h4 h5 h6 h7 h8, of "''bin''" ws w, unfolded e c ex_names]
  have i: "ex_images ! 0 = \<lparr>ref = ''tmp/row1_col1.png'', width = 180, height = 120, anchor = ''B1''\<rparr>"
    by (simp add: ex_images_def)
  show ?thesis unfolding i by (rule st)
qed

lemma ex_step_jpg:
  "\<exists>fs tr. process_single_link ex_env jpg_link 2 4 ''tmp/'' ''bin'' video_exts (ws, w)
     = (ws\<lparr>images := images ws @ [ex_images ! 3]\<rparr>, w\<lparr>files := fs, trace := trace w @ tr\<rparr>)"
proof -
  let ?r = "ok_response ''content of http://h/c.jpg''"
  have e: "get_file_extension (url jpg_link) = ''jpg''" by (simp add: jpg_link_def ext_jpg)
  have c: "col jpg_link = 2" by (simp add: jpg_link_def)
  have h1: "requests_get ex_env (url jpg_link) = Inr ?r" by (simp add: ex_env_def jpg_link_def)
  have h2: "raise_for_status ?r = None" by (simp add: raise_for_status_def ok_response_def)
  have h3: "get_file_extension (url jpg_link) \<in> {''jpg'', ''jpeg'', ''png''}" by (simp add: e)
  have h4: "open_error ex_env (path_join ''tmp/''
      (download_name 2 (col jpg_link) (get_file_extension (url jpg_link)))) = None"
    by (simp add: ex_env_def)
  have h5: "content_error ?r = None" by (simp add: ok_response_def)
  have h6: "image_error ex_env (content ?r) = None" by (simp add: ex_env_def)
  have h7: "(1::nat) \<le> 4" and h8: "(4::nat) \<le> 18278" by simp_all
  note st = raster_image_ok [OF h1 h2 h3 h4 h5 h6 h7 h8, of "''bin''" ws w, unfolded e c ex_names]
  have i: "ex_images ! 3 = \<lparr>ref = ''tmp/row2_col2.jpg'', width = 180, height = 120, anchor = ''D2''\<rparr>"
    by (simp add: ex_images_def)
  show ?thesis unfolding i by (rule st)
qed

lemma ex_step_pdf:
  "\<exists>fs tr. process_single_link ex_env pdf_link 2 3 ''tmp/'' ''bin'' video_exts (ws, w)
     = (ws\<lparr>images := images ws @ [ex_images ! 1, ex_images ! 2]\<rparr>,
        w\<lparr>files := fs, trace := trace w @ tr\<rparr>)"
proof -
  let ?r = "ok_response ''content of http://h/b.pdf''"
  have c: "col pdf_link = 1" by (simp add: pdf_link_def)
  have h1: "requests_get ex_env (url pdf_link) = Inr ?r" by (simp add: ex_env_def pdf_link_def)
  have h2: "raise_for_status ?r = None" by (simp add: raise_for_status_def ok_response_def)
  have h3: "get_file_extension (url pdf_link) = ''pdf''" by (simp add: pdf_link_def ext_pdf)
  have h4: "open_error ex_env (path_join ''tmp/'' (download_name 2 (col pdf_link) ''pdf'')) = None"
    by (simp add: ex_env_def)
  have h5: "content_error ?r = None" by (simp add: ok_response_def)
  have h6: "pdf_pages ex_env ''bin'' (content ?r) = Inr [''page 1'', ''page 2'']"
    by (simp add: ex_env_def)
  have h7: "\<forall>k. 1 \<le> k \<and> k \<le> length [''page 1'', ''page 2''] \<longrightarrow>
      page_ok ex_env ''tmp/'' 2 (col pdf_link) 3 k ([''page 1'', ''page 2''] ! (k - 1))"
    by (simp add: page_ok_def ex_env_def)
  have u: "[1..<Suc (length [''page 1'', ''page 2''])] = [1, 2]" by (simp add: upt_rec)
  have a: "(3::nat) + 1 - 1 = 3" "(3::nat) + 2 - 1 = 4" by simp_all
  note st = pdf_pages_ok [OF h1 h2 h3 h4 h5 h6 h7, of ws w,
      unfolded u list.map c a ex_names]
  have i: "[ex_images ! 1, ex_images ! 2]
      = [\<lparr>ref = ''tmp/row2_col1_p1.jpg'', width = 180, height = 120, anchor = ''C2''\<rparr>,
         \<lparr>ref = ''tmp/row2_col1_p2.jpg'', width = 180, height = 120, anchor = ''D2''\<rparr>]"
    by (simp add: ex_images_def)
  show ?thesis unfolding i by (rule st)
qed

lemma ex_workers:
  "\<exists>fs tr. run_workers ex_env ''tmp/'' ''bin'' video_exts (submissions ex_sheet) (ws, w)
     = (ws\<lparr>images := images ws @ ex_images\<rparr>, w\<lparr>files := fs, trace := trace w @ tr\<rparr>)"
proof -
  obtain fs1 tr1 where s1: "process_single_link ex_env png_link 1 2 ''tmp/'' ''bin'' video_exts (ws, w)
     = (ws\<lparr>images := images ws @ [ex_images ! 0]\<rparr>, w\<lparr>files := fs1, trace := trace w @ tr1\<rparr>)"
    using ex_step_png by blast
  let ?ws1 = "ws\<lparr>images := images ws @ [ex_images ! 0]\<rparr>"
  let ?w1 = "w\<lparr>files := fs1, trace := trace w @ tr1\<rparr>"
  obtain fs2 tr2 where s2: "process_single_link ex_env pdf_link 2 3 ''tmp/'' ''bin'' video_exts (?ws1, ?w1)
     = (?ws1\<lparr>images := images ?ws1 @ [ex_images ! 1, ex_images ! 2]\<rparr>,
        ?w1\<lparr>files := fs2, trace := trace ?w1 @ tr2\<rparr>)"
    using ex_step_pdf by blast
  let ?ws2 = "?ws1\<lparr>images := images ?ws1 @ [ex_images ! 1, ex_images ! 2]\<rparr>"
  let ?w2 = "?w1\<lparr>files := fs2, trace := trace ?w1 @ tr2\<rparr>"
  obtain fs3 tr3 where s3: "process_single_link ex_env jpg_link 2 4 ''tmp/'' ''bin'' video_exts (?ws2, ?w2)
     = (?ws2\<lparr>images := images ?ws2 @ [ex_images ! 3]\<rparr>,
        ?w2\<lparr>files := fs3, trace := trace ?w2 @ tr3\<rparr>)"
    using ex_step_jpg by blast
  have imgs: "[ex_images ! 0, ex_images ! 1, ex_images ! 2, ex_images ! 3] = ex_images"
    by (simp add: ex_images_def)
  have "run_workers ex_env ''tmp/'' ''bin'' video_exts (submissions ex_sheet) (ws, w)
     = (ws\<lparr>images := images ws @ ex_images\<rparr>,
        w\<lparr>files := fs3, trace := trace w @ (tr1 @ tr2 @ tr3)\<rparr>)"
    unfolding ex_submissions run_workers_Cons run_workers_Nil
    using s1 s2 s3 imgs by simp
  then show ?thesis by blast
qed

lemma ex_run_result:
  "\<exists>w'. ex_run = (None,
      Some (ex_sheet\<lparr>images := ex_images,
              column_width := (\<lambda>k. if k \<in> column_letters ` {1..2} then Some 25 else None),
              row_height := (\<lambda>r. if 1 \<le> r \<and> r \<le> 2 then Some 120 else None)\<rparr>), w')"
proof -
  let ?w3 = "ex_world\<lparr>trace := trace ex_world @ [Makedirs ''tmp/'', Listdir ''bin'', LoadWorkbook ''in.xlsx'']\<rparr>"
  obtain fs tr where run: "run_workers ex_env ''tmp/'' ''bin'' video_exts (submissions ex_sheet) (ex_sheet, ?w3)
     = (ex_sheet\<lparr>images := images ex_sheet @ ex_images\<rparr>, ?w3\<lparr>files := fs, trace := trace ?w3 @ tr\<rparr>)"
    using ex_workers by blast
  have v: "validate_poppler ex_env ''bin'' (ex_world\<lparr>trace := trace ex_world @ [Makedirs ''tmp/'']\<rparr>)
      = (None, ex_world\<lparr>trace := trace ex_world @ [Makedirs ''tmp/'', Listdir ''bin'']\<rparr>)"
    by (simp add: validate_poppler_eq ex_env_def)
  have d: "documents ex_world ''in.xlsx'' = Some ex_sheet" by (simp add: ex_world_def)
  have a: "adjust_dimensions (ex_sheet\<lparr>images := images ex_sheet @ ex_images\<rparr>)
      = Inr (ex_sheet\<lparr>images := ex_images,
              column_width := (\<lambda>k. if k \<in> column_letters ` {1..2} then Some 25 else None),
              row_height := (\<lambda>r. if 1 \<le> r \<and> r \<le> 2 then Some 120 else None)\<rparr>)"
    by (subst adjust_dimensions_eq) (simp_all add: ex_sheet_def cong: if_cong)
  have s: "save_error ex_env ''out.xlsx'' = None" by (simp add: ex_env_def)
  show ?thesis
    unfolding ex_run_def process_excel_hyperlinks_def Let_def
    using v d run a s by simp
qed

subsection \<open>What the workers of a run add\<close>

lemma task_effect_trace:
  "task_effect e td pp t eff \<Longrightarrow>
   \<exists>tr0. snd (snd eff) = HttpGet (url (fst t)) # tr0
     \<and> set tr0 \<subseteq> WriteFile ` link_files td (fst (snd t)) (col (fst t))"
  unfolding task_effect_def link_outcome_def by blast

lemma task_effect_anchors:
  "task_effect e td pp t eff \<Longrightarrow>
   map anchor (fst eff)
     = map (\<lambda>j. cell_ref (snd (snd t) + j) (fst (snd t))) [0..<length (fst eff)]"
  unfolding task_effect_def link_outcome_def by blast


lemma no_listdir:
  assumes "list_all2 (task_effect e td pp) tasks effs"
  shows "Listdir p \<notin> set (concat (map (\<lambda>eff. snd (snd eff)) effs))"
  using assms
proof (induction rule: list_all2_induct)
  case Nil
  then show ?case by simp
next
  case (Cons t ts eff effs)
  obtain tr0 where "snd (snd eff) = HttpGet (url (fst t)) # tr0"
    and "set tr0 \<subseteq> WriteFile ` link_files td (fst (snd t)) (col (fst t))"
    using task_effect_trace [OF Cons.hyps(1)] by blast
  then have "Listdir p \<notin> set (snd (snd eff))" by auto
  then show ?case using Cons.IH by simp
qed

lemma start_col_positive: "t \<in> set (submissions ws) \<Longrightarrow> 1 \<le> snd (snd t)"
proof -
  assume "t \<in> set (submissions ws)"
  then obtain r links where t: "t \<in> set (row_submissions ws (r, links))"
    unfolding submissions_def by auto
  then show ?thesis
    unfolding row_submissions_eq by (auto simp: find_insert_start_col_def)
qed

lemma abort_result:
  assumes "\<not> poppler_present e pp"
  shows "process_excel_hyperlinks e excel out td pp mw w
     = (Some (case listdir e pp of Inl x \<Rightarrow> x
              | Inr poppler_bin \<Rightarrow> FileNotFoundError ''Missing critical Poppler files''),
        None, w\<lparr>trace := trace w @ [Makedirs td, Listdir pp]\<rparr>)"
proof (cases "listdir e pp")
  case (Inl x)
  then have "validate_poppler e pp (w\<lparr>trace := trace w @ [Makedirs td]\<rparr>)
      = (Some x, w\<lparr>trace := trace w @ [Makedirs td, Listdir pp]\<rparr>)"
    by (simp add: validate_poppler_eq)
  then show ?thesis using Inl by (simp add: process_excel_hyperlinks_def Let_def)
next
  case (Inr poppler_bin)
  then have ns: "\<not> {''pdftoppm.exe'', ''pdfinfo.exe''} \<subseteq> set poppler_bin"
    using assms by (simp add: poppler_present_def)
  have "validate_poppler e pp (w\<lparr>trace := trace w @ [Makedirs td]\<rparr>)
      = (Some (FileNotFoundError ''Missing critical Poppler files''),
         w\<lparr>trace := trace w @ [Makedirs td, Listdir pp]\<rparr>)"
    unfolding validate_poppler_eq Inr sum.case using ns by (simp only: if_False) simp
  then show ?thesis using Inr by (simp add: process_excel_hyperlinks_def Let_def)
qed

lemma check_once:
  "\<exists>tr. trace (snd (snd (process_excel_hyperlinks e excel out td pp mw w)))
          = trace w @ Makedirs td # Listdir pp # tr
       \<and> (\<forall>p. Listdir p \<notin> set tr)"
proof (cases "poppler_present e pp")
  case False
  show ?thesis unfolding abort_result [OF False] by (intro exI [of _ "[]"]) simp
next
  case present: True
  have v: "validate_poppler e pp (w\<lparr>trace := trace w @ [Makedirs td]\<rparr>)
             = (None, w\<lparr>trace := trace w @ [Makedirs td, Listdir pp]\<rparr>)"
    using present
    by (cases "listdir e pp") (simp_all add: poppler_present_def validate_poppler_eq)
  show ?thesis
  proof (cases "documents w excel")
    case None
    then have "process_excel_hyperlinks e excel out td pp mw w
        = (Some (FileNotFoundError excel), None,
           w\<lparr>trace := trace w @ [Makedirs td, Listdir pp, LoadWorkbook excel]\<rparr>)"
      using v by (simp add: process_excel_hyperlinks_def Let_def)
    then show ?thesis by (intro exI [of _ "[LoadWorkbook excel]"]) simp
  next
    case (Some ws)
    obtain effs x ws' w' fs tail where
      all: "list_all2 (task_effect e td pp) (submissions ws) effs"
      and res: "process_excel_hyperlinks e excel out td pp mw w = (x, Some ws', w')"
      and w': "w' = w\<lparr>files := fs, documents := documents w',
             log := log w @ concat (map (\<lambda>eff. fst (snd eff)) effs),
             trace := trace w @ [Makedirs td, Listdir pp, LoadWorkbook excel]
                        @ concat (map (\<lambda>eff. snd (snd eff)) effs) @ tail\<rparr>"
      and tail: "set tail \<subseteq> {SaveWorkbook out, Rmtree td}"
      using run_shape [OF present Some, of td out mw] by blast
    let ?tr = "LoadWorkbook excel # concat (map (\<lambda>eff. snd (snd eff)) effs) @ tail"
    have "trace w' = trace w @ Makedirs td # Listdir pp # ?tr"
      by (subst w') simp
    moreover have "\<forall>p. Listdir p \<notin> set ?tr"
      using no_listdir [OF all] tail by auto
    ultimately show ?thesis unfolding res by (intro exI [of _ ?tr]) simp
  qed
qed

text \<open>
  Claim C7. When the required binaries are absent from the toolchain path
  (\<open>poppler_present\<close> fails: the directory cannot be listed, or it lacks
  \<^verbatim>\<open>pdftoppm.exe\<close> or \<^verbatim>\<open>pdfinfo.exe\<close>), the run ends with an exception, the
  \<^verbatim>\<open>FileNotFoundError\<close> of \<^verbatim>\<open>_validate_poppler\<close> when the directory was listed. No
  workbook has been loaded, so nothing is embedded, and the world is as before except
  for the two calls made, creating the scratch directory and listing the toolchain
  directory: no request, no file written, no document saved. In every run the listing
  is the second external call, and there is no other listing after it.
\<close>

theorem missing_dependency_aborts:
  "(\<not> poppler_present e pp \<longrightarrow>
      (\<exists>x. process_excel_hyperlinks e excel out td pp mw w
             = (Some x, None, w\<lparr>trace := trace w @ [Makedirs td, Listdir pp]\<rparr>))
    \<and> (\<forall>poppler_bin. listdir e pp = Inr poppler_bin \<longrightarrow>
          process_excel_hyperlinks e excel out td pp mw w
             = (Some (FileNotFoundError ''Missing critical Poppler files''), None,
                w\<lparr>trace := trace w @ [Makedirs td, Listdir pp]\<rparr>)))
   \<and> (\<exists>tr. trace (snd (snd (process_excel_hyperlinks e excel out td pp mw w)))
          = trace w @ Makedirs td # Listdir pp # tr
       \<and> (\<forall>p. Listdir p \<notin> set tr))"
proof (intro conjI impI allI)
  assume a: "\<not> poppler_present e pp"
  show "\<exists>x. process_excel_hyperlinks e excel out td pp mw w
             = (Some x, None, w\<lparr>trace := trace w @ [Makedirs td, Listdir pp]\<rparr>)"
    unfolding abort_result [OF a] by blast
  fix poppler_bin assume "listdir e pp = Inr poppler_bin"
  then show "process_excel_hyperlinks e excel out td pp mw w
             = (Some (FileNotFoundError ''Missing critical Poppler files''), None,
                w\<lparr>trace := trace w @ [Makedirs td, Listdir pp]\<rparr>)"
    unfolding abort_result [OF a] by simp
next
  show "\<exists>tr. trace (snd (snd (process_excel_hyperlinks e excel out td pp mw w)))
          = trace w @ Makedirs td # Listdir pp # tr
       \<and> (\<forall>p. Listdir p \<notin> set tr)"
    by (rule check_once)
qed

definition no_poppler_env :: env where
  "no_poppler_env = ex_env\<lparr>listdir := (\<lambda>p. Inr [''pdfinfo.exe''])\<rparr>"

theorem missing_dependency_aborts_witness:
  "\<not> poppler_present no_poppler_env ''bin''
   \<and> process_excel_hyperlinks no_poppler_env ''in.xlsx'' ''out.xlsx'' ''tmp/'' ''bin'' 4 ex_world
       = (Some (FileNotFoundError ''Missing critical Poppler files''), None,
          ex_world\<lparr>trace := trace ex_world @ [Makedirs ''tmp/'', Listdir ''bin'']\<rparr>)"
proof -
  have h: "\<not> poppler_present no_poppler_env ''bin''"
    by (simp add: poppler_present_def no_poppler_env_def)
  have l: "listdir no_poppler_env ''bin'' = Inr [''pdfinfo.exe'']"
    by (simp add: no_poppler_env_def)
  show ?thesis
    using h l missing_dependency_aborts [of no_poppler_env "''bin''" "''in.xlsx''" "''out.xlsx''"
        "''tmp/''" 4 ex_world]
    by blast
qed

subsection \<open>Claims about the run\<close>




text \<open>
  Claim C8, as the code has it. For a sheet of at most 18278 columns (more cannot be
  named by column letters), the run ends with a worksheet in which every column
  \<open>1 .. max_column\<close> has width 25 and every row \<open>1 .. max_row\<close> has height 120, the
  extent being that of the cells of the sheet; the columns beyond \<open>max_column\<close> keep
  the width they had. Every image the run embedded is anchored in a row of the extent,
  whose height is 120, and in a column whose width is 25 when the column lies within
  the extent. When saving succeeds, this worksheet is the output document.
\<close>

theorem dimensions_normalized:
  assumes "poppler_present e pp" and "documents w excel = Some ws" and "max_column ws \<le> 18278"
  shows "\<exists>x ws' w' imgs. process_excel_hyperlinks e excel out td pp mw w = (x, Some ws', w')
     \<and> (save_error e out = None \<longrightarrow> x = None \<and> documents w' out = Some ws')
     \<and> (\<forall>c. 1 \<le> c \<and> c \<le> max_column ws \<longrightarrow> column_width ws' (column_letters c) = Some 25)
     \<and> (\<forall>c. max_column ws < c \<longrightarrow> column_width ws' (column_letters c) = column_width ws (column_letters c))
     \<and> (\<forall>r. 1 \<le> r \<and> r \<le> max_row ws \<longrightarrow> row_height ws' r = Some 120)
     \<and> images ws' = images ws @ imgs
     \<and> (\<forall>i \<in> set imgs. \<exists>c r. anchor i = cell_ref c r \<and> 1 \<le> c \<and> 1 \<le> r \<and> r \<le> max_row ws
           \<and> row_height ws' r = Some 120
           \<and> (c \<le> max_column ws \<longrightarrow> column_width ws' (column_letters c) = Some 25))"
proof -
  from run_shape [OF assms(1,2), of td out mw] show ?thesis
  proof (elim exE conjE)
  fix effs x ws' w' fs tail
  assume all: "list_all2 (task_effect e td pp) (submissions ws) effs"
    and res: "process_excel_hyperlinks e excel out td pp mw w = (x, Some ws', w')"
    and im: "images ws' = images ws @ concat (map fst effs)"
    and dims: "max_column ws \<le> 18278 \<longrightarrow>
          column_width ws' = (\<lambda>k. if k \<in> column_letters ` {1..max_column ws} then Some 25
                                  else column_width ws k)
        \<and> row_height ws' = (\<lambda>r. if 1 \<le> r \<and> r \<le> max_row ws then Some 120 else row_height ws r)
        \<and> (save_error e out = None \<longrightarrow> x = None \<and> documents w' out = Some ws')"
  have cw: "column_width ws' = (\<lambda>k. if k \<in> column_letters ` {1..max_column ws} then Some 25
                                  else column_width ws k)"
    and rh: "row_height ws' = (\<lambda>r. if 1 \<le> r \<and> r \<le> max_row ws then Some 120 else row_height ws r)"
    and sv: "save_error e out = None \<longrightarrow> x = None \<and> documents w' out = Some ws'"
    using dims assms(3) by simp_all
  have inside: "column_width ws' (column_letters c) = Some 25" if "1 \<le> c" "c \<le> max_column ws" for c
    using that by (simp add: cw)
  have outside: "column_width ws' (column_letters c) = column_width ws (column_letters c)"
    if "max_column ws < c" for c
  proof -
    have "column_letters c \<notin> column_letters ` {1..max_column ws}"
    proof
      assume "column_letters c \<in> column_letters ` {1..max_column ws}"
      then obtain c' where "c' \<in> {1..max_column ws}" "column_letters c = column_letters c'" by blast
      then show False using column_letters_inj that by fastforce
    qed
    then show ?thesis by (simp add: cw)
  qed
  have rows: "row_height ws' r = Some 120" if "1 \<le> r" "r \<le> max_row ws" for r
    using that by (simp add: rh)
  have each: "\<exists>c r. anchor i = cell_ref c r \<and> 1 \<le> c \<and> 1 \<le> r \<and> r \<le> max_row ws
           \<and> row_height ws' r = Some 120
           \<and> (c \<le> max_column ws \<longrightarrow> column_width ws' (column_letters c) = Some 25)"
    if "i \<in> set (concat (map fst effs))" for i
  proof -
    from that obtain eff where eff: "eff \<in> set effs" and i: "i \<in> set (fst eff)" by auto
    then obtain n where n: "n < length effs" and en: "effs ! n = eff"
      by (meson in_set_conv_nth)
    let ?t = "submissions ws ! n"
    have nl: "n < length (submissions ws)" using n all by (simp add: list_all2_lengthD)
    have te: "task_effect e td pp ?t eff"
      using all n en by (auto simp: list_all2_conv_all_nth)
    have tin: "?t \<in> set (submissions ws)" using nl by simp
    have a: "map anchor (fst eff)
       = map (\<lambda>j. cell_ref (snd (snd ?t) + j) (fst (snd ?t))) [0..<length (fst eff)]"
      by (rule task_effect_anchors [OF te])
    obtain m where m: "m < length (fst eff)" and im: "fst eff ! m = i"
      using i by (meson in_set_conv_nth)
    have "anchor i = map anchor (fst eff) ! m" using m im by simp
    also have "\<dots> = cell_ref (snd (snd ?t) + m) (fst (snd ?t))"
      unfolding a using m by simp
    finally have an: "anchor i = cell_ref (snd (snd ?t) + m) (fst (snd ?t))" .
    have c1: "1 \<le> snd (snd ?t) + m" using start_col_positive [OF tin] by simp
    have r: "1 \<le> fst (snd ?t) \<and> fst (snd ?t) \<le> max_row ws" using submissions_rows [OF tin] .
    show ?thesis
      using an c1 r rows inside by blast
  qed
  show ?thesis
  proof (intro exI conjI)
    show "process_excel_hyperlinks e excel out td pp mw w = (x, Some ws', w')" by (rule res)
    show "save_error e out = None \<longrightarrow> x = None \<and> documents w' out = Some ws'" by (rule sv)
    show "\<forall>c. 1 \<le> c \<and> c \<le> max_column ws \<longrightarrow> column_width ws' (column_letters c) = Some 25"
      using inside by blast
    show "\<forall>c. max_column ws < c \<longrightarrow>
        column_width ws' (column_letters c) = column_width ws (column_letters c)"
      using outside by blast
    show "\<forall>r. 1 \<le> r \<and> r \<le> max_row ws \<longrightarrow> row_height ws' r = Some 120"
      using rows by blast
    show "images ws' = images ws @ concat (map fst effs)" by (rule im)
    show "\<forall>i \<in> set (concat (map fst effs)).
        \<exists>c r. anchor i = cell_ref c r \<and> 1 \<le> c \<and> 1 \<le> r \<and> r \<le> max_row ws
           \<and> row_height ws' r = Some 120
           \<and> (c \<le> max_column ws \<longrightarrow> column_width ws' (column_letters c) = Some 25)"
      using each by blast
  qed
qed
qed


lemma ex_present: "poppler_present ex_env ''bin''"
  by (simp add: poppler_present_def ex_env_def)

lemma ex_document: "documents ex_world ''in.xlsx'' = Some ex_sheet"
  by (simp add: ex_world_def)


lemma ex_anchors: "map anchor ex_images = [''B1'', ''C2'', ''D2'', ''D2'']"
  by (simp add: ex_images_def)


theorem dimensions_normalized_witness:
  "poppler_present ex_env ''bin'' \<and> documents ex_world ''in.xlsx'' = Some ex_sheet
   \<and> max_column ex_sheet \<le> 18278
   \<and> (\<exists>x ws' w'.
         process_excel_hyperlinks ex_env ''in.xlsx'' ''out.xlsx'' ''tmp/'' ''bin'' 4 ex_world
           = (x, Some ws', w')
         \<and> (\<forall>c. 1 \<le> c \<and> c \<le> max_column ex_sheet \<longrightarrow> column_width ws' (column_letters c) = Some 25)
         \<and> (\<forall>r. 1 \<le> r \<and> r \<le> max_row ex_sheet \<longrightarrow> row_height ws' r = Some 120))"
proof -
  have h3: "max_column ex_sheet \<le> 18278" by (simp add: ex_sheet_def)
  from dimensions_normalized [OF ex_present ex_document h3, of "''out.xlsx''" "''tmp/''" 4]
  have "\<exists>x ws' w'.
         process_excel_hyperlinks ex_env ''in.xlsx'' ''out.xlsx'' ''tmp/'' ''bin'' 4 ex_world
           = (x, Some ws', w')
         \<and> (\<forall>c. 1 \<le> c \<and> c \<le> max_column ex_sheet \<longrightarrow> column_width ws' (column_letters c) = Some 25)
         \<and> (\<forall>r. 1 \<le> r \<and> r \<le> max_row ex_sheet \<longrightarrow> row_height ws' r = Some 120)"
    by blast
  then show ?thesis using ex_present ex_document h3 by blast
qed

lemma ex_letters:
  "column_letters 1 = ''A''" "column_letters 2 = ''B''" "column_letters 3 = ''C''"
  "column_letters 4 = ''D''"
  by code_simp+

text \<open>
  Claim C8 as the specification words it (every column that holds an image has width
  25) fails in the end-to-end example: the sheet has two columns, the images of row 2
  are anchored in columns 3 and 4 (\<open>C2\<close>, \<open>D2\<close>), and column \<open>C\<close> has no width set
  in the output.
\<close>

theorem image_column_not_resized:
  "fst ex_run = None
   \<and> (case fst (snd ex_run) of None \<Rightarrow> False
       | Some ws' \<Rightarrow> map anchor (images ws') = [''B1'', ''C2'', ''D2'', ''D2'']
                    \<and> cell_ref 3 2 = ''C2'' \<and> column_letters 3 = ''C''
                    \<and> column_width ws' ''C'' = None \<and> column_width ws' ''B'' = Some 25
                    \<and> row_height ws' 2 = Some 120)"
proof -
  obtain w' where r: "ex_run = (None,
      Some (ex_sheet\<lparr>images := ex_images,
              column_width := (\<lambda>k. if k \<in> column_letters ` {1..2} then Some 25 else None),
              row_height := (\<lambda>r. if 1 \<le> r \<and> r \<le> 2 then Some 120 else None)\<rparr>), w')"
    using ex_run_result by blast
  have s: "{1..2::nat} = {1, 2}" by auto
  have "column_letters ` {1, 2} = {column_letters 1, column_letters 2}"
    by (simp only: image_insert image_empty)
  then have l: "column_letters ` {1..2} = {''A'', ''B''}"
    unfolding s ex_letters .
  show ?thesis
    unfolding r l by (simp add: ex_anchors ex_names ex_letters)
qed

text \<open>
  The files a worker writes: the paths of the \<open>WriteFile\<close> events it adds to the
  trace, from whatever state it starts in.
\<close>

definition new_writes ::
  "env \<Rightarrow> string \<Rightarrow> string \<Rightarrow> string set \<Rightarrow> task \<Rightarrow> worksheet \<times> world \<Rightarrow> string set" where
  "new_writes e temp_dir poppler_path vx t s =
     {p. WriteFile p \<in> set (drop (length (trace (snd s)))
            (trace (snd (process_single_link e (fst t) (fst (snd t)) (snd (snd t))
                           temp_dir poppler_path vx s))))}"

lemma new_writes_subset:
  "new_writes e td pp vx t s \<subseteq> link_files td (fst (snd t)) (col (fst t))"
proof -
  obtain l row sc where t: "t = (l, row, sc)" by (cases t) auto
  obtain ws w where s: "s = (ws, w)" by (cases s) auto
  obtain imgs fs evs tr where
    step: "process_single_link e l row sc td pp vx (ws, w) = apply_effect (ws, w) imgs fs evs tr"
    and eff: "task_effect e td pp (l, row, sc) (imgs, evs, tr)"
    using worker_effect [of e l row sc td pp vx ws w] by blast
  obtain tr0 where tr: "tr = HttpGet (url l) # tr0"
    and sub: "set tr0 \<subseteq> WriteFile ` link_files td row (col l)"
    using task_effect_trace [OF eff] by auto
  have "drop (length (trace w)) (trace (snd (apply_effect (ws, w) imgs fs evs tr))) = tr"
    by (simp add: apply_effect_def)
  then show ?thesis
    unfolding new_writes_def t s using step tr sub by auto
qed

lemma page_name_inj:
  assumes "path_join td (page_name row c k) = path_join td (page_name row c k')"
  shows "k = k'"
proof -
  have "page_name row c k = page_name row c k'" using assms by (rule path_join_inj)
  then have "str_nat k @ CHR ''.'' # ''jpg'' = str_nat k' @ CHR ''.'' # ''jpg''"
    by (simp add: page_name_def)
  moreover have "\<not> is_digit CHR ''.''" by (simp add: is_digit_def)
  ultimately show ?thesis using digits_then by blast
qed

lemma download_not_page:
  "path_join td (download_name row c ext) \<noteq> path_join td (page_name row' c' k)"
proof
  assume "path_join td (download_name row c ext) = path_join td (page_name row' c' k)"
  then have eq: "download_name row c ext = page_name row' c' k" by (rule path_join_inj)
  have u: "\<not> is_digit CHR ''_''" and d: "\<not> is_digit CHR ''.''" by (simp_all add: is_digit_def)
  have "str_nat row @ CHR ''_'' # (''col'' @ str_nat c @ CHR ''.'' # ext)
      = str_nat row' @ CHR ''_'' # (''col'' @ str_nat c' @ CHR ''_'' # (''p'' @ str_nat k @ ''.jpg''))"
    using eq by (simp add: download_name_def page_name_def)
  from digits_then [OF u u this]
  have "str_nat c @ CHR ''.'' # ext = str_nat c' @ CHR ''_'' # (''p'' @ str_nat k @ ''.jpg'')"
    by simp
  from digits_then [OF d u this] show False by simp
qed

text \<open>
  Claim C10. Two distinct submissions of a run write disjoint sets of files, whatever
  the environment and whatever the states the two workers start from. Every file a
  worker writes is one of \<open>link_files\<close>: the download, named from the row and the
  originating column of its link, or a page file, named from them and the page number.
  The (row, originating column) pairs of the submissions are pairwise distinct, page
  files of different pages differ, and a download is never a page file.
\<close>

theorem scratch_paths_distinct:
  "(i < j \<and> j < length (submissions ws) \<longrightarrow>
      new_writes e td pp vx (submissions ws ! i) s
        \<inter> new_writes e td pp vx (submissions ws ! j) s' = {})
   \<and> new_writes e td pp vx t s \<subseteq> link_files td (fst (snd t)) (col (fst t))
   \<and> distinct (map (\<lambda>t. (fst (snd t), col (fst t))) (submissions ws))
   \<and> (path_join td (page_name row c k) = path_join td (page_name row c k') \<longrightarrow> k = k')
   \<and> path_join td (download_name row c ext) \<noteq> path_join td (page_name row' c' k)"
proof -
  have disj: "new_writes e td pp vx (submissions ws ! i) s
        \<inter> new_writes e td pp vx (submissions ws ! j) s' = {}"
    if "i < j" "j < length (submissions ws)"
  proof -
    let ?f = "\<lambda>t. (fst (snd t), col (fst t))"
    let ?ti = "submissions ws ! i" and ?tj = "submissions ws ! j"
    have il: "i < length (submissions ws)" using that by simp
    have ne: "(fst (snd ?ti), col (fst ?ti)) \<noteq> (fst (snd ?tj), col (fst ?tj))"
      using nth_eq_iff_index_eq [OF cells_distinct [of ws], of i j] that il by simp
    have "link_files td (fst (snd ?ti)) (col (fst ?ti))
            \<inter> link_files td (fst (snd ?tj)) (col (fst ?tj)) = {}"
      using ne by (rule link_files_disjoint)
    then show ?thesis
      using new_writes_subset [of e td pp vx ?ti s] new_writes_subset [of e td pp vx ?tj s']
      by blast
  qed
  show ?thesis
    using disj new_writes_subset [of e td pp vx t s] cells_distinct [of ws]
      page_name_inj [of td row c k k'] download_not_page [of td row c ext row' c' k]
    by blast
qed

theorem scratch_paths_distinct_witness:
  "(1::nat) < 2 \<and> 2 < length (submissions ex_sheet)
   \<and> new_writes ex_env ''tmp/'' ''bin'' video_exts (submissions ex_sheet ! 1) (ex_sheet, ex_world)
        \<inter> new_writes ex_env ''tmp/'' ''bin'' video_exts (submissions ex_sheet ! 2) (ex_sheet, ex_world)
      = {}"
proof -
  have h: "(1::nat) < 2 \<and> 2 < length (submissions ex_sheet)"
    by (simp add: ex_submissions)
  show ?thesis
    using h scratch_paths_distinct [of 1 2 ex_sheet ex_env "''tmp/''" "''bin''" video_exts
        "(ex_sheet, ex_world)" "(ex_sheet, ex_world)"]
    by blast
qed

end
